theory Spec2Isabelle
  imports Complex_Main "HOL-Library.Multiset" "HOL-Library.Product_Lexorder"
begin

section \<open>Python values used by the rewards service\<close>

text \<open>
  \<^verbatim>\<open>Optional[str]\<close> is \<^typ>\<open>string option\<close>. Strings are ASCII byte strings.
  The exceptions the modelled code raises are values of one datatype.
\<close>

datatype py_exception = ValueError | KeyError | IntegrityError | DataError
  | SignatureVerificationError | StripeException | Overflow

text \<open>Truth value of an \<^verbatim>\<open>Optional[str]\<close>: \<^verbatim>\<open>None\<close> and \<^verbatim>\<open>""\<close> are falsy.\<close>

fun truthy :: "string option \<Rightarrow> bool" where
  "truthy None = False"
| "truthy (Some s) = (s \<noteq> [])"

text \<open>\<^verbatim>\<open>a or b\<close> on optional strings: \<^verbatim>\<open>a\<close> when it is truthy, else \<^verbatim>\<open>b\<close>.\<close>

definition py_or :: "string option \<Rightarrow> string option \<Rightarrow> string option" where
  "py_or a b = (if truthy a then a else b)"

text \<open>\<^verbatim>\<open>str.lower()\<close> on ASCII text.\<close>

definition lower_char :: "char \<Rightarrow> char" where
  "lower_char c =
     (case map_of (zip ''ABCDEFGHIJKLMNOPQRSTUVWXYZ'' ''abcdefghijklmnopqrstuvwxyz'') c of
        Some l \<Rightarrow> l
      | None \<Rightarrow> c)"

definition lower :: "string \<Rightarrow> string" where
  "lower s = map lower_char s"

text \<open>\<^verbatim>\<open>pattern in text\<close>: the substring test of Python strings.\<close>

fun is_prefix :: "string \<Rightarrow> string \<Rightarrow> bool" where
  "is_prefix [] ys = True"
| "is_prefix (x # xs) [] = False"
| "is_prefix (x # xs) (y # ys) = (x = y \<and> is_prefix xs ys)"

fun str_contains :: "string \<Rightarrow> string \<Rightarrow> bool" where
  "str_contains p [] = (p = [])"
| "str_contains p (c # cs) = (is_prefix p (c # cs) \<or> str_contains p cs)"

section \<open>decimal.Decimal under the default context\<close>

text \<open>
  A finite \<^verbatim>\<open>Decimal\<close> is a signed coefficient and an exponent; its value is the
  coefficient times ten to the exponent. No module of the service sets a decimal context, so
  all arithmetic runs under the default one: precision 28, rounding \<^verbatim>\<open>ROUND_HALF_EVEN\<close>,
  \<^verbatim>\<open>Emax = 999999\<close>, \<^verbatim>\<open>Emin = -999999\<close>, and the trap for \<^verbatim>\<open>Overflow\<close> enabled
  (the traps for \<^verbatim>\<open>Inexact\<close>, \<^verbatim>\<open>Rounded\<close>, \<^verbatim>\<open>Subnormal\<close> and \<^verbatim>\<open>Underflow\<close> are not).
  Every operation computes the exact result and passes it to \<^verbatim>\<open>Decimal._fix\<close>, which
  rounds it to the context. The values \<^verbatim>\<open>NaN\<close> and \<^verbatim>\<open>Infinity\<close> are not represented,
  and a negative zero is not told from zero (no comparison of the service tells them apart).
\<close>

record decimal =
  coefficient :: int
  exponent :: int

definition context_prec :: nat where "context_prec = 28"

definition Emax :: int where "Emax = 999999"

definition Emin :: int where "Emin = - 999999"

definition Etiny :: int where "Etiny = Emin - int context_prec + 1"

definition Etop :: int where "Etop = Emax - int context_prec + 1"

text \<open>The number of digits of a coefficient: \<^verbatim>\<open>len(self._int)\<close>.\<close>

fun ndigits :: "nat \<Rightarrow> nat" where
  "ndigits n = (if n < 10 then 1 else Suc (ndigits (n div 10)))"

text \<open>
  \<^verbatim>\<open>ROUND_HALF_EVEN\<close>: the coefficient \<open>n\<close> without its last \<open>k\<close> digits, incremented
  when the digits dropped are more than half a unit, or exactly half and the rest is odd.
\<close>

definition round_half_even :: "nat \<Rightarrow> nat \<Rightarrow> nat" where
  "round_half_even n k =
     (let q = n div 10 ^ k; r = n mod 10 ^ k
      in if 10 ^ k < 2 * r \<or> (2 * r = 10 ^ k \<and> odd q) then q + 1 else q)"

text \<open>
  \<^verbatim>\<open>Decimal._fix\<close>: a zero keeps its exponent within the context's bounds; a result whose
  coefficient has more than 28 digits (or whose exponent is below \<^verbatim>\<open>Etiny\<close>) is rounded; a
  result too large for \<^verbatim>\<open>Emax\<close> raises \<^verbatim>\<open>Overflow\<close>.
\<close>

definition dec_fix :: "decimal \<Rightarrow> py_exception + decimal" where
  "dec_fix d =
     (if coefficient d = 0 then
        Inr \<lparr>coefficient = 0, exponent = min (max (exponent d) Etiny) Emax\<rparr>
      else
        (let exp_min = int (ndigits (nat \<bar>coefficient d\<bar>)) + exponent d - int context_prec
         in if Etop < exp_min then Inl Overflow
            else
              (let exp_min = max exp_min Etiny in
               if exponent d < exp_min then
                 (let coeff = round_half_even (nat \<bar>coefficient d\<bar>) (nat (exp_min - exponent d));
                      carry = (context_prec < ndigits coeff);
                      coeff = (if carry then coeff div 10 else coeff);
                      exp_min = (if carry then exp_min + 1 else exp_min)
                  in if Etop < exp_min then Inl Overflow
                     else Inr \<lparr>coefficient = sgn (coefficient d) * int coeff,
                               exponent = exp_min\<rparr>)
               else Inr d)))"

text \<open>\<^verbatim>\<open>Decimal.__add__\<close>: the exact sum at the smaller exponent, then \<^verbatim>\<open>_fix\<close>.\<close>

definition dec_add :: "decimal \<Rightarrow> decimal \<Rightarrow> py_exception + decimal" where
  "dec_add a b =
     (let e = min (exponent a) (exponent b)
      in dec_fix \<lparr>coefficient = coefficient a * 10 ^ nat (exponent a - e)
                                + coefficient b * 10 ^ nat (exponent b - e),
                  exponent = e\<rparr>)"

text \<open>\<^verbatim>\<open>Decimal.__mul__\<close>: the exact product, then \<^verbatim>\<open>_fix\<close>.\<close>

definition dec_mul :: "decimal \<Rightarrow> decimal \<Rightarrow> py_exception + decimal" where
  "dec_mul a b =
     dec_fix \<lparr>coefficient = coefficient a * coefficient b, exponent = exponent a + exponent b\<rparr>"

text \<open>\<^verbatim>\<open>Decimal(n)\<close> for an integer \<open>n\<close>: exact, whatever the context.\<close>

definition dec_of_int :: "int \<Rightarrow> decimal" where
  "dec_of_int n = \<lparr>coefficient = n, exponent = 0\<rparr>"

text \<open>\<^verbatim>\<open>Decimal.__neg__\<close>: the sign flipped, then \<^verbatim>\<open>_fix\<close>.\<close>

definition dec_neg :: "decimal \<Rightarrow> py_exception + decimal" where
  "dec_neg a = dec_fix \<lparr>coefficient = - coefficient a, exponent = exponent a\<rparr>"

text \<open>
  \<^verbatim>\<open>Decimal(n) / 100\<close> for an integer \<open>n\<close>: the exact quotient is \<open>n\<close> at exponent -2,
  and the result is that number rounded to the context. Python writes an exact quotient
  with as few trailing zeros as the exponent 0 allows; the result here denotes the same
  number, and the service reads nothing but that number.
\<close>

definition cents_to_decimal :: "int \<Rightarrow> py_exception + decimal" where
  "cents_to_decimal n = dec_fix \<lparr>coefficient = n, exponent = - 2\<rparr>"

text \<open>The number a \<^verbatim>\<open>Decimal\<close> denotes; comparisons of decimals compare these numbers.\<close>

definition dec_value :: "decimal \<Rightarrow> rat" where
  "dec_value d =
     (if 0 \<le> exponent d then of_int (coefficient d) * 10 ^ nat (exponent d)
      else of_int (coefficient d) / 10 ^ nat (- exponent d))"

section \<open>policy\_engine/categories.py\<close>

definition ALLOWED_CATEGORIES :: "string set" where
  "ALLOWED_CATEGORIES = set
     [''groceries'', ''food'', ''fresh_produce'', ''meat'', ''dairy'', ''bakery'',
      ''frozen_food'', ''canned_goods'', ''beverages_non_alcoholic'', ''snacks'', ''cereal'',
      ''pasta'', ''rice'', ''bread'', ''seafood'',
      ''pharmacy'', ''prescription'', ''over_the_counter'', ''vitamins'',
      ''health_supplements'', ''medical_supplies'', ''baby_formula'', ''baby_food'']"

definition DISALLOWED_CATEGORIES :: "string set" where
  "DISALLOWED_CATEGORIES = set
     [''alcohol'', ''beer'', ''wine'', ''liquor'', ''tobacco'', ''cigarettes'', ''cigars'',
      ''vaping'', ''smoking_products'',
      ''hot_food'', ''prepared_food'', ''deli_hot'', ''hot_deli'', ''restaurant'', ''fast_food'',
      ''non_food'', ''household'', ''cleaning_supplies'', ''paper_products'', ''pet_food'',
      ''cosmetics'', ''toiletries_non_essential'', ''clothing'', ''electronics'',
      ''appliances'']"

text \<open>The pattern dictionary, in its insertion order (the order Python iterates it in).\<close>

definition UPC_PATTERNS :: "(string \<times> string list) list" where
  "UPC_PATTERNS =
     [(''alcohol'', [''beer'', ''wine'', ''liquor'', ''spirits'', ''alcohol'']),
      (''tobacco'', [''cigarette'', ''cigar'', ''tobacco'', ''smoking'']),
      (''hot_food'', [''hot'', ''prepared'', ''deli_hot'', ''ready_to_eat''])]"

section \<open>policy\_engine/upc\_classifier.py\<close>

type_synonym category_cache = "string \<rightharpoonup> string"

text \<open>The inner loop \<^verbatim>\<open>for pattern in patterns: if pattern in product_lower\<close>.\<close>

fun scan_patterns :: "string list \<Rightarrow> string \<Rightarrow> bool" where
  "scan_patterns [] product_lower = False"
| "scan_patterns (pattern # patterns) product_lower =
     (if str_contains pattern product_lower then True
      else scan_patterns patterns product_lower)"

text \<open>The outer loop over \<^verbatim>\<open>UPC_PATTERNS.items()\<close>; the first hit returns.\<close>

fun scan_categories :: "(string \<times> string list) list \<Rightarrow> string \<Rightarrow> string option" where
  "scan_categories [] product_lower = None"
| "scan_categories ((disallowed_cat, patterns) # rest) product_lower =
     (if scan_patterns patterns product_lower then Some disallowed_cat
      else scan_categories rest product_lower)"

text \<open>
  \<^verbatim>\<open>UPCClassifier.classify_item\<close>. The instance attribute \<^verbatim>\<open>category_cache\<close> is
  passed in and returned.
\<close>

definition classify_item ::
  "category_cache \<Rightarrow> string option \<Rightarrow> string option \<Rightarrow> string option \<Rightarrow> string option
     \<Rightarrow> string \<times> category_cache" where
  "classify_item cache upc sku product_name category =
     (case (if truthy category then
              (case category of
                 Some c \<Rightarrow> if c \<in> ALLOWED_CATEGORIES \<union> DISALLOWED_CATEGORIES then Some c else None
               | None \<Rightarrow> None)
            else None) of
        Some c \<Rightarrow> (c, cache)
      | None \<Rightarrow>
          (let identifier = py_or upc sku in
           case (if truthy identifier then
                   (case identifier of Some i \<Rightarrow> cache i | None \<Rightarrow> None)
                 else None) of
             Some cached \<Rightarrow> (cached, cache)
           | None \<Rightarrow>
               (case (if truthy product_name then
                        (case product_name of
                           Some n \<Rightarrow> scan_categories UPC_PATTERNS (lower n)
                         | None \<Rightarrow> None)
                      else None) of
                  Some disallowed_cat \<Rightarrow>
                    (disallowed_cat,
                     if truthy identifier then
                       (case identifier of
                          Some i \<Rightarrow> cache(i \<mapsto> disallowed_cat)
                        | None \<Rightarrow> cache)
                     else cache)
                | None \<Rightarrow> (''unknown'', cache))))"

text \<open>\<^verbatim>\<open>UPCClassifier.is_eligible\<close>.\<close>

definition is_eligible :: "string \<Rightarrow> bool" where
  "is_eligible category =
     (if category \<in> ALLOWED_CATEGORIES then True
      else if category \<in> DISALLOWED_CATEGORIES then False
      else False)"

section \<open>policy\_engine/snap\_policy\_engine.py\<close>

datatype PolicyDecision = APPROVE | DENY | PARTIAL

text \<open>
  One element of the \<^verbatim>\<open>items\<close> argument: a dictionary read with \<^verbatim>\<open>.get\<close>. A missing
  key is \<^const>\<open>None\<close>. The values present have the type the docstring gives them: strings,
  a decimal price, an integer quantity; on these \<^verbatim>\<open>Decimal(str(price))\<close> and
  \<^verbatim>\<open>int(quantity)\<close> return the value itself.
\<close>

record item_data =
  get_upc :: "string option"
  get_sku :: "string option"
  get_product_name :: "string option"
  get_category :: "string option"
  get_price :: "decimal option"
  get_quantity :: "int option"

text \<open>The class \<^verbatim>\<open>Item\<close>.\<close>

record Item =
  item_upc :: "string option"
  item_sku :: "string option"
  item_product_name :: "string option"
  item_category :: string
  item_price :: decimal
  item_quantity :: int
  item_is_eligible :: bool

text \<open>
  \<^verbatim>\<open>Item.__init__\<close>: a truthy declared category is kept as it is; otherwise the global
  classifier is called without a category, which may write its cache.
\<close>

definition Item_init ::
  "category_cache \<Rightarrow> string option \<Rightarrow> string option \<Rightarrow> string option \<Rightarrow> string option
     \<Rightarrow> decimal \<Rightarrow> int \<Rightarrow> Item \<times> category_cache" where
  "Item_init cache upc sku product_name category price quantity =
     (let (cat, cache') =
            (case (if truthy category then category else None) of
               Some c \<Rightarrow> (c, cache)
             | None \<Rightarrow> classify_item cache upc sku product_name None)
      in (\<lparr>item_upc = upc, item_sku = sku, item_product_name = product_name,
           item_category = cat, item_price = price, item_quantity = quantity,
           item_is_eligible = is_eligible cat\<rparr>, cache'))"

text \<open>
  The construction of an \<^verbatim>\<open>Item\<close> from one dictionary, with the defaults of \<^verbatim>\<open>.get\<close>:
  price \<^verbatim>\<open>Decimal("0")\<close>, quantity 1.
\<close>

definition item_of_data :: "category_cache \<Rightarrow> item_data \<Rightarrow> Item \<times> category_cache" where
  "item_of_data cache item_data =
     Item_init cache (get_upc item_data) (get_sku item_data) (get_product_name item_data)
       (get_category item_data)
       (case get_price item_data of Some p \<Rightarrow> p | None \<Rightarrow> dec_of_int 0)
       (case get_quantity item_data of Some q \<Rightarrow> q | None \<Rightarrow> 1)"

text \<open>
  The loop of \<^verbatim>\<open>check_transaction_eligibility\<close>, with its three accumulators
  \<^verbatim>\<open>processed_items\<close>, \<^verbatim>\<open>approved_amount\<close>, \<^verbatim>\<open>denied_items\<close> and the classifier cache.
  The statement \<^verbatim>\<open>approved_amount += item.price * item.quantity\<close> is a decimal
  multiplication by \<^verbatim>\<open>Decimal(item.quantity)\<close> followed by a decimal addition, each rounded
  to the context; an \<^verbatim>\<open>Overflow\<close> of either leaves the function, the cache keeping what the
  items so far have written.
\<close>

fun eligibility_loop ::
  "item_data list \<Rightarrow> category_cache \<Rightarrow> Item list \<Rightarrow> decimal \<Rightarrow> Item list
     \<Rightarrow> (py_exception + Item list \<times> decimal \<times> Item list) \<times> category_cache" where
  "eligibility_loop [] cache processed_items approved_amount denied_items =
     (Inr (processed_items, approved_amount, denied_items), cache)"
| "eligibility_loop (item_data # rest) cache processed_items approved_amount denied_items =
     (let (item, cache') = item_of_data cache item_data in
      if item_is_eligible item then
        (case dec_mul (item_price item) (dec_of_int (item_quantity item)) of
           Inl e \<Rightarrow> (Inl e, cache')
         | Inr line \<Rightarrow>
             (case dec_add approved_amount line of
                Inl e \<Rightarrow> (Inl e, cache')
              | Inr approved_amount' \<Rightarrow>
                  eligibility_loop rest cache' (processed_items @ [item]) approved_amount'
                    denied_items))
      else
        eligibility_loop rest cache' (processed_items @ [item]) approved_amount
          (denied_items @ [item]))"

text \<open>
  \<^verbatim>\<open>check_transaction_eligibility\<close>: the loop from \<^verbatim>\<open>Decimal("0.00")\<close>, then the
  decision. The result is the exception raised or the triple returned, with the cache.
\<close>

definition check_transaction_eligibility ::
  "category_cache \<Rightarrow> item_data list
     \<Rightarrow> (py_exception + PolicyDecision \<times> Item list \<times> decimal) \<times> category_cache" where
  "check_transaction_eligibility cache items =
     (case eligibility_loop items cache [] \<lparr>coefficient = 0, exponent = - 2\<rparr> [] of
        (Inl e, cache') \<Rightarrow> (Inl e, cache')
      | (Inr (processed_items, approved_amount, denied_items), cache') \<Rightarrow>
          (Inr (if length denied_items = 0 then APPROVE
                else if length denied_items = length processed_items then DENY
                else PARTIAL,
                processed_items, approved_amount), cache'))"

text \<open>\<^verbatim>\<open>PolicyEngine.check_item_eligibility\<close>.\<close>

definition check_item_eligibility ::
  "category_cache \<Rightarrow> string option \<Rightarrow> string option \<Rightarrow> string option \<Rightarrow> string option
     \<Rightarrow> (bool \<times> string) \<times> category_cache" where
  "check_item_eligibility cache upc sku product_name category =
     (let (cat, cache') = classify_item cache upc sku product_name category
      in ((is_eligible cat, cat), cache'))"

section \<open>db/models.py and ledger/transactions.py\<close>

text \<open>
  UUIDs are opaque values; timestamps are points of a discrete clock. The column
  \<^verbatim>\<open>amount\<close> of the table \<^verbatim>\<open>transactions\<close> has the PostgreSQL type
  \<^verbatim>\<open>NUMERIC(10, 2)\<close>: a row holds the number the database stored, a rational with two
  fractional digits. The database rounds a value to two fractional digits, ties away from
  zero, and refuses one whose rounded magnitude has more than eight integer digits.
\<close>

type_synonym uuid = nat

definition numeric_10_2 :: "rat \<Rightarrow> py_exception + rat" where
  "numeric_10_2 x =
     (let hundredths = \<lfloor>\<bar>x\<bar> * 100 + 1 / 2\<rfloor>
      in if 10 ^ 10 \<le> hundredths then Inl DataError
         else Inr (sgn x * of_int hundredths / 100))"

text \<open>A value of a metadata dictionary: a string or \<^verbatim>\<open>None\<close>, an integer, a number.\<close>

datatype meta_value = MStr "string option" | MInt int | MNum decimal

record Transaction =
  transaction_id :: uuid
  user_id :: uuid
  amount :: rat
  reason :: string
  stripe_ref :: "string option"
  category :: "string option"
  metadata :: "(string \<times> meta_value) list option"
  created_at :: nat

record StripeAccount =
  sa_user_id :: uuid
  stripe_account_id :: string
  is_active :: bool

text \<open>
  The database: the rows of each table in insertion order. \<^verbatim>\<open>users\<close> holds
  \<^verbatim>\<open>user_id\<close> and \<^verbatim>\<open>external_core_id\<close> of each user; \<^verbatim>\<open>audit_logs\<close> holds action and event type of each row.
\<close>

record database =
  users :: "(uuid \<times> string) list"
  transactions :: "Transaction list"
  stripe_accounts :: "StripeAccount list"
  audit_logs :: "(string \<times> string) list"

text \<open>
  SQL \<^verbatim>\<open>SUM\<close> over the selected rows: \<^verbatim>\<open>NULL\<close> when no row is selected. The database
  adds \<^verbatim>\<open>NUMERIC\<close> values exactly.
\<close>

definition sql_sum :: "rat list \<Rightarrow> rat option" where
  "sql_sum xs = (if xs = [] then None else Some (sum_list xs))"

text \<open>
  \<^verbatim>\<open>calculate_balance_from_ledger\<close>: \<^verbatim>\<open>Decimal(result or 0)\<close>, where a missing and a
  zero sum are both falsy. The result is the number the returned \<^verbatim>\<open>Decimal\<close> denotes;
  the constructor does not round.
\<close>

definition calculate_balance_from_ledger :: "database \<Rightarrow> uuid \<Rightarrow> rat" where
  "calculate_balance_from_ledger db uid =
     (let result = sql_sum (map amount (filter (\<lambda>t. user_id t = uid) (transactions db)))
      in case result of
           None \<Rightarrow> 0
         | Some r \<Rightarrow> if r = 0 then 0 else r)"

definition get_user_balance :: "database \<Rightarrow> uuid \<Rightarrow> rat" where
  "get_user_balance db uid = calculate_balance_from_ledger db uid"

text \<open>
  \<^verbatim>\<open>create_transaction\<close>. The primary key and the creation time are the values the column
  defaults (\<^verbatim>\<open>uuid4\<close>, \<^verbatim>\<open>utcnow\<close>) produce. The commit fails with a \<^verbatim>\<open>DataError\<close> when
  the amount does not fit its column or a string is longer than its column, and with an
  \<^verbatim>\<open>IntegrityError\<close> when the primary key is taken or the user row does not exist. After
  \<^verbatim>\<open>db.refresh\<close> the returned object holds the stored row. The column \<^verbatim>\<open>metadata\<close> holds
  the JSON text of the dictionary, kept here as the dictionary; a missing or empty dictionary
  is stored as \<^verbatim>\<open>NULL\<close>.
\<close>

definition create_transaction ::
  "database \<Rightarrow> uuid \<Rightarrow> nat \<Rightarrow> uuid \<Rightarrow> decimal \<Rightarrow> string \<Rightarrow> string option \<Rightarrow> string option
     \<Rightarrow> (string \<times> meta_value) list option \<Rightarrow> py_exception + (Transaction \<times> database)" where
  "create_transaction db new_id now uid amt rsn ref cat meta =
     (if rsn \<notin> set [''earn'', ''spend'', ''redeem''] then Inl ValueError
      else if coefficient amt = 0 then Inl ValueError
      else
        (let metadata_json = (if meta = Some [] then None else meta) in
         case numeric_10_2 (dec_value amt) of
           Inl e \<Rightarrow> Inl e
         | Inr stored \<Rightarrow>
             if (case ref of Some r \<Rightarrow> 255 < length r | None \<Rightarrow> False)
                \<or> (case cat of Some c \<Rightarrow> 100 < length c | None \<Rightarrow> False)
             then Inl DataError
             else if new_id \<in> transaction_id ` set (transactions db) then Inl IntegrityError
             else if uid \<notin> fst ` set (users db) then Inl IntegrityError
             else
               (let transaction = \<lparr>transaction_id = new_id, user_id = uid, amount = stored,
                                    reason = rsn, stripe_ref = ref, category = cat,
                                    metadata = metadata_json, created_at = now\<rparr>
                in Inr (transaction, db\<lparr>transactions := transactions db @ [transaction]\<rparr>))))"

text \<open>
  \<^verbatim>\<open>get_transaction_history\<close>. The query orders by \<^verbatim>\<open>created_at\<close> descending and by
  nothing else, so the database may deliver rows of equal creation time in any order:
  the model gives every result the query may have. A negative limit or offset is refused
  by the database.
\<close>

fun interleave :: "'a \<Rightarrow> 'a list \<Rightarrow> 'a list list" where
  "interleave x [] = [[x]]"
| "interleave x (y # ys) = (x # y # ys) # map ((#) y) (interleave x ys)"

fun orderings :: "'a list \<Rightarrow> 'a list list" where
  "orderings [] = [[]]"
| "orderings (x # xs) = concat (map (interleave x) (orderings xs))"

definition newest_first :: "Transaction list \<Rightarrow> bool" where
  "newest_first ts = sorted_wrt (\<lambda>a b. created_at b \<le> created_at a) ts"

definition order_by_created_at_desc :: "Transaction list \<Rightarrow> Transaction list set" where
  "order_by_created_at_desc rows = set (filter newest_first (orderings rows))"

definition get_transaction_history ::
  "database \<Rightarrow> uuid \<Rightarrow> int \<Rightarrow> int \<Rightarrow> (py_exception + Transaction list) set" where
  "get_transaction_history db uid limit_n offset_n =
     (if limit_n < 0 \<or> offset_n < 0 then {Inl DataError}
      else (\<lambda>ordered. Inr (take (nat limit_n) (drop (nat offset_n) ordered))) `
             order_by_created_at_desc (filter (\<lambda>t. user_id t = uid) (transactions db)))"

text \<open>
  The history the specification describes: newest first, rows of equal creation time ordered
  by their entry identifier, then the page of \<open>limit_n\<close> rows from row \<open>offset_n\<close>.
\<close>

definition history_spec :: "database \<Rightarrow> uuid \<Rightarrow> int \<Rightarrow> int \<Rightarrow> Transaction list" where
  "history_spec db uid limit_n offset_n =
     take (nat limit_n) (drop (nat offset_n)
       (rev (sort_key (\<lambda>t. (created_at t, transaction_id t))
          (filter (\<lambda>t. user_id t = uid) (transactions db)))))"

section \<open>audit/audit\_log.py\<close>

text \<open>
  A row of \<^verbatim>\<open>audit_logs\<close> is kept as its action and its event type. The column
  \<^verbatim>\<open>event_type\<close> is a \<^verbatim>\<open>String(100)\<close> that is not nullable: the commit fails with an
  \<^verbatim>\<open>IntegrityError\<close> on \<^verbatim>\<open>None\<close> and with a \<^verbatim>\<open>DataError\<close> on a longer string.
\<close>

definition add_audit_log :: "database \<Rightarrow> string \<Rightarrow> string \<Rightarrow> database" where
  "add_audit_log db action event_type = db\<lparr>audit_logs := audit_logs db @ [(action, event_type)]\<rparr>"

definition log_webhook_event :: "database \<Rightarrow> string option \<Rightarrow> py_exception + database" where
  "log_webhook_event db event_type =
     (case event_type of
        None \<Rightarrow> Inl IntegrityError
      | Some ty \<Rightarrow>
          if 100 < length ty then Inl DataError
          else Inr (add_audit_log db ''webhook'' ty))"

section \<open>stripe\_integration/webhooks.py\<close>

text \<open>
  The part of a verified event the handlers read: \<^verbatim>\<open>event["data"]["object"]\<close> with its
  keys \<^verbatim>\<open>id\<close>, \<^verbatim>\<open>amount\<close> (an integer number of cents), \<^verbatim>\<open>metadata["user_id"]\<close> and
  \<^verbatim>\<open>destination\<close>. A missing key is \<^const>\<open>None\<close>.
\<close>

record stripe_object =
  obj_id :: "string option"
  obj_amount :: "int option"
  obj_metadata_user_id :: "string option"
  obj_destination :: "string option"

record stripe_event =
  ev_id :: "string option"
  ev_type :: "string option"
  ev_object :: "stripe_object option"

text \<open>
  What the module takes from its environment: the secret read at import and the constructor
  \<^verbatim>\<open>UUID\<close>, which fails on a string that is not a UUID.
\<close>

record webhook_env =
  WEBHOOK_SECRET :: string
  UUID :: "string \<Rightarrow> uuid option"

text \<open>The module-level dictionary \<^verbatim>\<open>processed_events\<close>, keyed by \<^verbatim>\<open>event.get("id")\<close>.\<close>

type_synonym processed_events = "string option \<rightharpoonup> bool"

record webhook_response =
  status :: string
  event_id :: "string option"

text \<open>
  \<^verbatim>\<open>_handle_payment_succeeded\<close>: without a user the event is skipped; otherwise the debit
  \<^verbatim>\<open>-(Decimal(amount) / 100)\<close> is appended with reason \<^verbatim>\<open>spend\<close>. The balance is not read.
\<close>

definition handle_payment_succeeded ::
  "webhook_env \<Rightarrow> database \<Rightarrow> stripe_event \<Rightarrow> uuid \<Rightarrow> nat \<Rightarrow> py_exception + database" where
  "handle_payment_succeeded env db event new_id now =
     (case ev_object event of
        None \<Rightarrow> Inl KeyError
      | Some payment_intent \<Rightarrow>
          if \<not> truthy (obj_metadata_user_id payment_intent) then Inr db
          else
            (case obj_amount payment_intent of
               None \<Rightarrow> Inl KeyError
             | Some cents \<Rightarrow>
                 (case cents_to_decimal cents of
                    Inl e \<Rightarrow> Inl e
                  | Inr amt \<Rightarrow>
                      (case (case obj_metadata_user_id payment_intent of
                               Some s \<Rightarrow> UUID env s
                             | None \<Rightarrow> None) of
                         None \<Rightarrow> Inl ValueError
                       | Some uid \<Rightarrow>
                           (case dec_neg amt of
                              Inl e \<Rightarrow> Inl e
                            | Inr debit \<Rightarrow>
                                (case obj_id payment_intent of
                                   None \<Rightarrow> Inl KeyError
                                 | Some pid \<Rightarrow>
                                     (case create_transaction db new_id now uid debit ''spend''
                                             (Some pid) None
                                             (Some [(''event_type'',
                                                     MStr (Some ''payment_intent.succeeded''))]) of
                                        Inl e \<Rightarrow> Inl e
                                      | Inr (txn, db') \<Rightarrow> Inr db')))))))"

definition handle_payment_failed :: "database \<Rightarrow> stripe_event \<Rightarrow> py_exception + database" where
  "handle_payment_failed db event =
     (case ev_object event of None \<Rightarrow> Inl KeyError | Some payment_intent \<Rightarrow> Inr db)"

text \<open>
  \<^verbatim>\<open>_handle_transfer_created\<close>: the credit \<^verbatim>\<open>Decimal(amount) / 100\<close> for the user of the
  Stripe account the transfer goes to, when there is one.
\<close>

definition handle_transfer_created ::
  "database \<Rightarrow> stripe_event \<Rightarrow> uuid \<Rightarrow> nat \<Rightarrow> py_exception + database" where
  "handle_transfer_created db event new_id now =
     (case ev_object event of
        None \<Rightarrow> Inl KeyError
      | Some transfer \<Rightarrow>
          (case find (\<lambda>a. Some (stripe_account_id a) = obj_destination transfer)
                  (stripe_accounts db) of
             None \<Rightarrow> Inr db
           | Some stripe_account \<Rightarrow>
               (case obj_amount transfer of
                  None \<Rightarrow> Inl KeyError
                | Some cents \<Rightarrow>
                    (case cents_to_decimal cents of
                       Inl e \<Rightarrow> Inl e
                     | Inr amt \<Rightarrow>
                         (case obj_id transfer of
                            None \<Rightarrow> Inl KeyError
                          | Some tid \<Rightarrow>
                              (case create_transaction db new_id now (sa_user_id stripe_account)
                                      amt ''earn'' (Some tid) None
                                      (Some [(''event_type'', MStr (Some ''transfer.created''))]) of
                                 Inl e \<Rightarrow> Inl e
                               | Inr (txn, db') \<Rightarrow> Inr db'))))))"

definition handle_account_updated :: "database \<Rightarrow> stripe_event \<Rightarrow> py_exception + database" where
  "handle_account_updated db event =
     (case ev_object event of None \<Rightarrow> Inl KeyError | Some account \<Rightarrow> Inr db)"

text \<open>
  \<^verbatim>\<open>handle_stripe_webhook\<close>. \<open>verification\<close> is what
  \<^verbatim>\<open>stripe.Webhook.construct_event(payload, signature, WEBHOOK_SECRET)\<close> does on this
  delivery: the exception it raises or the event it returns. The result is the exception the
  call raises or the dictionary it returns, with the database and \<^verbatim>\<open>processed_events\<close> as
  the call leaves them. A \<^verbatim>\<open>SignatureVerificationError\<close> is re-raised as a
  \<^verbatim>\<open>ValueError\<close>, every other exception as it is.
\<close>

definition handle_stripe_webhook ::
  "webhook_env \<Rightarrow> database \<times> processed_events \<Rightarrow> py_exception + stripe_event \<Rightarrow> uuid \<Rightarrow> nat
     \<Rightarrow> (py_exception + webhook_response) \<times> database \<times> processed_events" where
  "handle_stripe_webhook env st verification new_id now =
     (let (db, processed) = st in
      if WEBHOOK_SECRET env = [] then (Inl ValueError, db, processed)
      else
        (case verification of
           Inl e \<Rightarrow>
             (Inl (if e = SignatureVerificationError then ValueError else e), db, processed)
         | Inr event \<Rightarrow>
             if ev_id event \<in> dom processed then
               (Inr \<lparr>status = ''already_processed'', event_id = ev_id event\<rparr>, db, processed)
             else
               (case log_webhook_event db (ev_type event) of
                  Inl e \<Rightarrow> (Inl e, db, processed)
                | Inr db1 \<Rightarrow>
                    (case (if ev_type event = Some ''payment_intent.succeeded'' then
                             handle_payment_succeeded env db1 event new_id now
                           else if ev_type event = Some ''payment_intent.payment_failed'' then
                             handle_payment_failed db1 event
                           else if ev_type event = Some ''transfer.created'' then
                             handle_transfer_created db1 event new_id now
                           else if ev_type event = Some ''account.updated'' then
                             handle_account_updated db1 event
                           else Inr db1) of
                       Inl e \<Rightarrow> (Inl e, db1, processed)
                     | Inr db2 \<Rightarrow>
                         (Inr \<lparr>status = ''success'', event_id = ev_id event\<rparr>, db2,
                          processed(ev_id event \<mapsto> True))))))"


section \<open>Auxiliary notions for the properties\<close>

text \<open>The keys of the pattern dictionary.\<close>

definition pattern_categories :: "string set" where
  "pattern_categories = set (map fst UPC_PATTERNS)"

text \<open>A sequence of calls of \<^verbatim>\<open>classify_item\<close> (upc, sku, product name, category) on one classifier.\<close>

fun classify_calls ::
  "category_cache \<Rightarrow> (string option \<times> string option \<times> string option \<times> string option) list
     \<Rightarrow> category_cache" where
  "classify_calls cache [] = cache"
| "classify_calls cache ((upc, sku, product_name, cat) # calls) =
     classify_calls (snd (classify_item cache upc sku product_name cat)) calls"

text \<open>
  The resolution order as the specification words it, for one supplied identifier:
  a declared category of the closed vocabulary; else the cached classification of the
  identifier; else the keyword patterns on the lowercased name, alcohol before tobacco before
  hot food, the hit cached against the identifier; else \<^verbatim>\<open>unknown\<close>.
\<close>

definition keyword_category :: "string \<Rightarrow> string option" where
  "keyword_category text =
     (if \<exists>p \<in> set [''beer'', ''wine'', ''liquor'', ''spirits'', ''alcohol'']. str_contains p text
        then Some ''alcohol''
      else if \<exists>p \<in> set [''cigarette'', ''cigar'', ''tobacco'', ''smoking'']. str_contains p text
        then Some ''tobacco''
      else if \<exists>p \<in> set [''hot'', ''prepared'', ''deli_hot'', ''ready_to_eat'']. str_contains p text
        then Some ''hot_food''
      else None)"

definition supplied :: "string option \<Rightarrow> string option" where
  "supplied x = (case x of Some s \<Rightarrow> if s = [] then None else Some s | None \<Rightarrow> None)"

definition classify_spec ::
  "category_cache \<Rightarrow> string option \<Rightarrow> string option \<Rightarrow> string option
     \<Rightarrow> string \<times> category_cache" where
  "classify_spec cache identifier free_text declared =
     (case (case declared of
              Some c \<Rightarrow> if c \<in> ALLOWED_CATEGORIES \<union> DISALLOWED_CATEGORIES then Some c else None
            | None \<Rightarrow> None) of
        Some c \<Rightarrow> (c, cache)
      | None \<Rightarrow>
          (case (case supplied identifier of Some i \<Rightarrow> cache i | None \<Rightarrow> None) of
             Some cached \<Rightarrow> (cached, cache)
           | None \<Rightarrow>
               (case (case supplied free_text of
                        Some n \<Rightarrow> keyword_category (lower n)
                      | None \<Rightarrow> None) of
                  Some k \<Rightarrow>
                    (k, case supplied identifier of
                          Some i \<Rightarrow> cache(i \<mapsto> k)
                        | None \<Rightarrow> cache)
                | None \<Rightarrow> (''unknown'', cache))))"

text \<open>
  A cache extends another when it agrees with it except on identifiers the other does not
  hold, where it may hold a key of the pattern dictionary.
\<close>

definition cache_extends :: "category_cache \<Rightarrow> category_cache \<Rightarrow> bool" where
  "cache_extends c c' = (\<forall>k. c' k = c k \<or> (c k = None \<and> c' k \<in> Some ` pattern_categories))"

text \<open>The items the loop of \<^verbatim>\<open>check_transaction_eligibility\<close> constructs, in its order.\<close>

fun built_items :: "category_cache \<Rightarrow> item_data list \<Rightarrow> Item list" where
  "built_items cache [] = []"
| "built_items cache (d # ds) =
     (let (item, cache') = item_of_data cache d in item # built_items cache' ds)"

text \<open>The cache after the items of a list have been constructed one after the other.\<close>

fun cache_after :: "category_cache \<Rightarrow> item_data list \<Rightarrow> category_cache" where
  "cache_after cache [] = cache"
| "cache_after cache (d # ds) = cache_after (snd (item_of_data cache d)) ds"

text \<open>Price and quantity of a dictionary with the defaults of \<^verbatim>\<open>.get\<close>.\<close>

definition price_of :: "item_data \<Rightarrow> decimal" where
  "price_of d = (case get_price d of Some p \<Rightarrow> p | None \<Rightarrow> dec_of_int 0)"

definition quantity_of :: "item_data \<Rightarrow> int" where
  "quantity_of d = (case get_quantity d of Some q \<Rightarrow> q | None \<Rightarrow> 1)"

text \<open>
  The decimal sum of the line totals of a list of items, from a start value and in the order
  of the list: each product and each partial sum is rounded to the context, and the first
  \<^verbatim>\<open>Overflow\<close> ends it.
\<close>

definition line_total :: "Item \<Rightarrow> py_exception + decimal" where
  "line_total i = dec_mul (item_price i) (dec_of_int (item_quantity i))"

fun decimal_total :: "decimal \<Rightarrow> Item list \<Rightarrow> py_exception + decimal" where
  "decimal_total a [] = Inr a"
| "decimal_total a (i # rest) =
     (case line_total i of
        Inl e \<Rightarrow> Inl e
      | Inr line \<Rightarrow>
          (case dec_add a line of
             Inl e \<Rightarrow> Inl e
           | Inr a' \<Rightarrow> decimal_total a' rest))"

text \<open>
  A decimal with at most \<open>m\<close> fractional digits, as an integer number of units of
  \<open>10\<^sup>-\<^sup>m\<close>.
\<close>

definition scaled :: "nat \<Rightarrow> decimal \<Rightarrow> int" where
  "scaled m d = coefficient d * 10 ^ nat (exponent d + int m)"

text \<open>
  Item lists on which the decimal arithmetic of the policy engine is exact: for some number
  \<open>m\<close> of fractional digits between 2 and 28, every price has at most \<open>m\<close> fractional digits
  (and an exponent of at most \<^const>\<open>Etop\<close>), and the absolute line totals, price times
  quantity, add up to less than \<open>10\<^sup>2\<^sup>8\<close> units of \<open>10\<^sup>-\<^sup>m\<close>.
\<close>

definition exact_amounts :: "nat \<Rightarrow> item_data list \<Rightarrow> bool" where
  "exact_amounts m items =
     (2 \<le> m \<and> m \<le> 28
      \<and> (\<forall>d \<in> set items. - int m \<le> exponent (price_of d) \<and> exponent (price_of d) \<le> Etop)
      \<and> (\<Sum>d \<leftarrow> items. \<bar>scaled m (price_of d) * quantity_of d\<bar>) < 10 ^ 28)"

text \<open>Example items: a dairy item and an alcohol item of a given price and quantity.\<close>

definition dairy :: "decimal \<Rightarrow> int \<Rightarrow> item_data" where
  "dairy p q = \<lparr>get_upc = None, get_sku = None, get_product_name = Some ''Milk'',
                get_category = Some ''dairy'', get_price = Some p, get_quantity = Some q\<rparr>"

definition beer :: "decimal \<Rightarrow> int \<Rightarrow> item_data" where
  "beer p q = \<lparr>get_upc = Some ''1'', get_sku = None, get_product_name = Some ''Beer'',
               get_category = None, get_price = Some p, get_quantity = Some q\<rparr>"

text \<open>
  Example ledgers. Two entries of one user created at the same instant, and three entries
  created one after the other.
\<close>

definition entry :: "uuid \<Rightarrow> uuid \<Rightarrow> rat \<Rightarrow> string \<Rightarrow> nat \<Rightarrow> Transaction" where
  "entry i u a r t = \<lparr>transaction_id = i, user_id = u, amount = a, reason = r,
                      stripe_ref = None, category = None, metadata = None, created_at = t\<rparr>"

definition ledger_of :: "Transaction list \<Rightarrow> database" where
  "ledger_of ts = \<lparr>users = [(1, ''alice'')], transactions = ts, stripe_accounts = [],
                   audit_logs = []\<rparr>"

text \<open>
  An example delivery: a \<^verbatim>\<open>payment_intent.succeeded\<close> event of 2000 cents for the user
  whose identifier reads \<^verbatim>\<open>"1"\<close>.
\<close>

definition example_env :: webhook_env where
  "example_env = \<lparr>WEBHOOK_SECRET = ''whsec'', UUID = (\<lambda>s. if s = ''1'' then Some 1 else None)\<rparr>"

definition payment_event :: stripe_event where
  "payment_event =
     \<lparr>ev_id = Some ''evt_1'', ev_type = Some ''payment_intent.succeeded'',
      ev_object = Some \<lparr>obj_id = Some ''pi_1'', obj_amount = Some 2000,
                        obj_metadata_user_id = Some ''1'', obj_destination = None\<rparr>\<rparr>"

definition unknown_user_event :: stripe_event where
  "unknown_user_event =
     \<lparr>ev_id = Some ''evt_2'', ev_type = Some ''payment_intent.succeeded'',
      ev_object = Some \<lparr>obj_id = Some ''pi_2'', obj_amount = Some 2000,
                        obj_metadata_user_id = Some ''nobody'', obj_destination = None\<rparr>\<rparr>"

text \<open>A ledger with other amounts in its entries.\<close>

definition with_amounts :: "(Transaction \<Rightarrow> rat) \<Rightarrow> database \<Rightarrow> database" where
  "with_amounts f db = db\<lparr>transactions := map (\<lambda>t. t\<lparr>amount := f t\<rparr>) (transactions db)\<rparr>"

section \<open>Properties of the classifier\<close>

lemma allowed_disallowed_disjoint: "ALLOWED_CATEGORIES \<inter> DISALLOWED_CATEGORIES = {}"
  unfolding ALLOWED_CATEGORIES_def DISALLOWED_CATEGORIES_def by simp

lemma unknown_not_allowed: "''unknown'' \<notin> ALLOWED_CATEGORIES"
  unfolding ALLOWED_CATEGORIES_def by simp

lemma empty_not_known: "[] \<notin> ALLOWED_CATEGORIES \<union> DISALLOWED_CATEGORIES"
  unfolding ALLOWED_CATEGORIES_def DISALLOWED_CATEGORIES_def by simp

lemma scan_patterns_ex: "scan_patterns ps s = (\<exists>p \<in> set ps. str_contains p s)"
  by (induction ps) auto

lemma scan_keyword: "scan_categories UPC_PATTERNS s = keyword_category s"
  unfolding UPC_PATTERNS_def keyword_category_def
  by (simp only: scan_categories.simps scan_patterns_ex)

text \<open>
  C7. \<^verbatim>\<open>is_eligible\<close> is true exactly for the members of the allow-set; it is false for
  every member of the deny-set, for every value outside both sets, and for \<^verbatim>\<open>unknown\<close>.
\<close>

theorem is_eligible_iff_allowed:
  "is_eligible c = (c \<in> ALLOWED_CATEGORIES)
   \<and> (c \<in> DISALLOWED_CATEGORIES \<longrightarrow> \<not> is_eligible c)
   \<and> (c \<notin> ALLOWED_CATEGORIES \<union> DISALLOWED_CATEGORIES \<longrightarrow> \<not> is_eligible c)
   \<and> \<not> is_eligible ''unknown''"
  using allowed_disallowed_disjoint unknown_not_allowed by (auto simp: is_eligible_def)

theorem is_eligible_iff_allowed_witness:
  "''alcohol'' \<in> DISALLOWED_CATEGORIES \<and> \<not> is_eligible ''alcohol''
   \<and> ''widgets'' \<notin> ALLOWED_CATEGORIES \<union> DISALLOWED_CATEGORIES \<and> \<not> is_eligible ''widgets''"
proof -
  have a: "''alcohol'' \<in> DISALLOWED_CATEGORIES"
    unfolding DISALLOWED_CATEGORIES_def by simp
  have w: "''widgets'' \<notin> ALLOWED_CATEGORIES \<union> DISALLOWED_CATEGORIES"
    unfolding ALLOWED_CATEGORIES_def DISALLOWED_CATEGORIES_def by simp
  show ?thesis
    using a w is_eligible_iff_allowed [of "''alcohol''"] is_eligible_iff_allowed [of "''widgets''"]
    by blast
qed

lemma classify_item_eq_spec:
  "classify_item cache upc sku product_name declared
   = classify_spec cache (py_or upc sku) product_name declared"
proof (cases "supplied declared")
  case None
  then have d: "(case declared of
                   Some c \<Rightarrow> if c \<in> ALLOWED_CATEGORIES \<union> DISALLOWED_CATEGORIES then Some c else None
                 | None \<Rightarrow> None) = None"
    using empty_not_known by (cases declared) (auto simp: supplied_def split: if_splits)
  show ?thesis
    unfolding classify_item_def classify_spec_def Let_def d scan_keyword
    using None
    by (cases "supplied (py_or upc sku)"; cases "supplied product_name")
       (auto simp: supplied_def split: option.splits if_splits)
next
  case (Some c)
  then have "declared = Some c" "c \<noteq> []"
    by (auto simp: supplied_def split: option.splits if_splits)
  then show ?thesis
    unfolding classify_item_def classify_spec_def Let_def scan_keyword
    by (cases "supplied (py_or upc sku)"; cases "supplied product_name")
       (auto simp: supplied_def split: option.splits if_splits)
qed

text \<open>
  C6. \<^verbatim>\<open>classify_item\<close> resolves in the fixed order of the specification, first match
  winning: it computes what \<^const>\<open>classify_spec\<close> computes for the identifier
  \<^verbatim>\<open>upc or sku\<close>, result and cache alike.
\<close>

theorem classify_item_resolution_order:
  "classify_item cache upc sku product_name declared
   = classify_spec cache (py_or upc sku) product_name declared"
  by (rule classify_item_eq_spec)

theorem classify_item_resolution_order_witness:
  "classify_item Map.empty None (Some ''sku-7'') (Some ''Hot CIGAR and Wine'') (Some ''gadgets'')
   = (''alcohol'', [''sku-7'' \<mapsto> ''alcohol''])"
  using classify_item_resolution_order
          [of Map.empty None "Some ''sku-7''" "Some ''Hot CIGAR and Wine''" "Some ''gadgets''"]
  by (simp add: classify_spec_def supplied_def py_or_def keyword_category_def lower_def
        lower_char_def ALLOWED_CATEGORIES_def DISALLOWED_CATEGORIES_def)

section \<open>The cache of the classifier\<close>

lemma pattern_categories_eq: "pattern_categories = {''alcohol'', ''tobacco'', ''hot_food''}"
  unfolding pattern_categories_def UPC_PATTERNS_def by auto

lemma pattern_not_eligible: "c \<in> pattern_categories \<Longrightarrow> \<not> is_eligible c"
  unfolding pattern_categories_eq is_eligible_def ALLOWED_CATEGORIES_def by auto

lemma unknown_not_eligible: "\<not> is_eligible ''unknown''"
  using unknown_not_allowed by (simp add: is_eligible_def)

lemma scan_categories_in: "scan_categories ps s = Some c \<Longrightarrow> c \<in> set (map fst ps)"
  by (induction ps s rule: scan_categories.induct) (auto split: if_splits)

lemma keyword_category_in: "keyword_category s = Some c \<Longrightarrow> c \<in> pattern_categories"
  using scan_categories_in [of UPC_PATTERNS s c] 
  by (simp add: scan_keyword pattern_categories_def)

lemma classify_spec_cases:
  "classify_spec cache ident name declared = (r, cache') \<Longrightarrow>
     (\<exists>c. declared = Some c \<and> c \<in> ALLOWED_CATEGORIES \<union> DISALLOWED_CATEGORIES \<and> r = c \<and> cache' = cache)
   \<or> (declared \<notin> Some ` (ALLOWED_CATEGORIES \<union> DISALLOWED_CATEGORIES) \<and>
       ((\<exists>i. supplied ident = Some i \<and> cache i = Some r \<and> cache' = cache)
      \<or> ((\<forall>i. supplied ident = Some i \<longrightarrow> cache i = None) \<and>
          ((r \<in> pattern_categories \<and> (\<exists>n. supplied name = Some n \<and> keyword_category (lower n) = Some r) \<and>
              cache' = (case supplied ident of Some i \<Rightarrow> cache(i \<mapsto> r) | None \<Rightarrow> cache))
          \<or> (r = ''unknown'' \<and> cache' = cache \<and> (\<forall>n. supplied name = Some n \<longrightarrow> keyword_category (lower n) = None))))))"
  unfolding classify_spec_def
  by (auto split: option.splits if_splits dest: keyword_category_in)


lemma is_eligible_allowed: "is_eligible c = (c \<in> ALLOWED_CATEGORIES)"
  by (simp add: is_eligible_def)

lemma classify_spec_ran:
  assumes e: "classify_spec cache ident name declared = (r, cache')"
    and inv: "ran cache \<subseteq> pattern_categories"
  shows "ran cache' \<subseteq> pattern_categories"
proof (cases "cache' = cache")
  case True
  then show ?thesis using inv by simp
next
  case False
  with classify_spec_cases [OF e] obtain i where
    i: "supplied ident = Some i" "cache i = None" "r \<in> pattern_categories" "cache' = cache(i \<mapsto> r)"
    by (auto split: option.splits)
  have "ran (cache(i \<mapsto> r)) = insert r (ran cache)"
    using i(2) by (rule ran_map_upd)
  then show ?thesis using i inv by simp
qed

lemma classify_item_ran:
  assumes "ran cache \<subseteq> pattern_categories"
  shows "ran (snd (classify_item cache upc sku name declared)) \<subseteq> pattern_categories"
proof -
  obtain r cache' where e: "classify_spec cache (py_or upc sku) name declared = (r, cache')"
    by (cases "classify_spec cache (py_or upc sku) name declared")
  from classify_spec_ran [OF e assms] show ?thesis by (simp add: classify_item_eq_spec e)
qed

lemma classify_calls_ran:
  "ran cache \<subseteq> pattern_categories \<Longrightarrow> ran (classify_calls cache calls) \<subseteq> pattern_categories"
proof (induction calls arbitrary: cache)
  case Nil
  then show ?case by simp
next
  case (Cons call calls)
  obtain u s n d where c: "call = (u, s, n, d)" by (cases call)
  show ?case unfolding c classify_calls.simps
    by (rule Cons.IH) (rule classify_item_ran [OF Cons.prems])
qed

lemma classify_spec_eligible:
  assumes e: "classify_spec cache ident name declared = (r, cache')"
    and inv: "ran cache \<subseteq> pattern_categories"
  shows "is_eligible r = (declared \<in> Some ` ALLOWED_CATEGORIES)"
proof (cases "declared \<in> Some ` (ALLOWED_CATEGORIES \<union> DISALLOWED_CATEGORIES)")
  case True
  with classify_spec_cases [OF e] obtain c where
    c: "declared = Some c" "r = c" by auto
  then show ?thesis by (auto simp: is_eligible_allowed)
next
  case False
  then have nd: "declared \<notin> Some ` ALLOWED_CATEGORIES" by auto
  from False classify_spec_cases [OF e]
  have "(\<exists>i. cache i = Some r) \<or> r \<in> pattern_categories \<or> r = ''unknown''"
    by blast
  moreover have "(\<exists>i. cache i = Some r) \<Longrightarrow> r \<in> pattern_categories"
    using inv by (auto simp: ran_def)
  ultimately have "\<not> is_eligible r"
    using pattern_not_eligible unknown_not_eligible by blast
  with nd show ?thesis by simp
qed

lemma classify_item_eligible_any_cache:
  assumes "ran cache \<subseteq> pattern_categories"
  shows "is_eligible (fst (classify_item cache upc sku name declared))
       = (declared \<in> Some ` ALLOWED_CATEGORIES)"
proof -
  obtain r cache' where e: "classify_spec cache (py_or upc sku) name declared = (r, cache')"
    by (cases "classify_spec cache (py_or upc sku) name declared")
  from classify_spec_eligible [OF e assms] show ?thesis by (simp add: classify_item_eq_spec e)
qed

lemma classify_item_write:
  "snd (classify_item cache upc sku name declared) = cache
   \<or> (\<exists>i n k. supplied (py_or upc sku) = Some i \<and> cache i = None \<and> supplied name = Some n
        \<and> keyword_category (lower n) = Some k
        \<and> fst (classify_item cache upc sku name declared) = k
        \<and> snd (classify_item cache upc sku name declared) = cache(i \<mapsto> k))"
proof -
  obtain r cache' where e: "classify_spec cache (py_or upc sku) name declared = (r, cache')"
    by (cases "classify_spec cache (py_or upc sku) name declared")
  from classify_spec_cases [OF e] show ?thesis
    unfolding classify_item_eq_spec e by (auto split: option.splits)
qed

text \<open>
  C10. In every cache a classifier reaches from the empty one, the stored categories are keys
  of the pattern dictionary (alcohol, tobacco, hot\_food); \<^verbatim>\<open>unknown\<close> is never stored; a
  cached category is ineligible; a call leaves the cache as it is or stores the category of
  a pattern match; and the eligibility of a call's result is the one the empty cache gives.
\<close>

theorem cache_holds_only_pattern_categories:
  "ran (classify_calls Map.empty calls) \<subseteq> pattern_categories
   \<and> pattern_categories = {''alcohol'', ''tobacco'', ''hot_food''}
   \<and> ''unknown'' \<notin> ran (classify_calls Map.empty calls)
   \<and> (\<forall>i c. classify_calls Map.empty calls i = Some c \<longrightarrow> \<not> is_eligible c)
   \<and> (snd (classify_item (classify_calls Map.empty calls) upc sku name declared)
         = classify_calls Map.empty calls
       \<or> (\<exists>i n k. supplied (py_or upc sku) = Some i \<and> supplied name = Some n
             \<and> keyword_category (lower n) = Some k
             \<and> fst (classify_item (classify_calls Map.empty calls) upc sku name declared) = k
             \<and> snd (classify_item (classify_calls Map.empty calls) upc sku name declared)
                 = (classify_calls Map.empty calls)(i \<mapsto> k)))
   \<and> is_eligible (fst (classify_item (classify_calls Map.empty calls) upc sku name declared))
       = is_eligible (fst (classify_item Map.empty upc sku name declared))"
proof -
  let ?c = "classify_calls Map.empty calls"
  have inv: "ran ?c \<subseteq> pattern_categories"
    by (rule classify_calls_ran) simp
  have unk: "''unknown'' \<notin> pattern_categories"
    by (simp add: pattern_categories_eq)
  have hit: "\<forall>i c. ?c i = Some c \<longrightarrow> \<not> is_eligible c"
    using inv pattern_not_eligible by (auto simp: ran_def)
  have w: "snd (classify_item ?c upc sku name declared) = ?c
       \<or> (\<exists>i n k. supplied (py_or upc sku) = Some i \<and> supplied name = Some n
             \<and> keyword_category (lower n) = Some k
             \<and> fst (classify_item ?c upc sku name declared) = k
             \<and> snd (classify_item ?c upc sku name declared) = ?c(i \<mapsto> k))"
    using classify_item_write [of ?c upc sku name declared] by blast
  have el: "is_eligible (fst (classify_item ?c upc sku name declared))
       = is_eligible (fst (classify_item Map.empty upc sku name declared))"
    using classify_item_eligible_any_cache [OF inv]
          classify_item_eligible_any_cache [of Map.empty] by simp
  show ?thesis using inv unk hit w el pattern_categories_eq by blast
qed

theorem cache_holds_only_pattern_categories_witness:
  "classify_calls Map.empty [(Some ''0123'', None, Some ''Craft Beer'', None)] ''0123'' = Some ''alcohol''
   \<and> \<not> is_eligible ''alcohol''
   \<and> fst (classify_item (classify_calls Map.empty [(Some ''0123'', None, Some ''Craft Beer'', None)])
            (Some ''0123'') None (Some ''Cigar'') None) = ''alcohol''
   \<and> fst (classify_item Map.empty (Some ''0123'') None (Some ''Cigar'') None) = ''tobacco''"
proof -
  have c: "classify_calls Map.empty [(Some ''0123'', None, Some ''Craft Beer'', None)] ''0123'' = Some ''alcohol''"
    by (simp add: classify_item_eq_spec classify_spec_def supplied_def py_or_def keyword_category_def lower_def
        lower_char_def)
  have d: "fst (classify_item (classify_calls Map.empty [(Some ''0123'', None, Some ''Craft Beer'', None)])
            (Some ''0123'') None (Some ''Cigar'') None) = ''alcohol''"
    by (simp add: classify_item_eq_spec classify_spec_def supplied_def py_or_def keyword_category_def lower_def
        lower_char_def)
  have e: "fst (classify_item Map.empty (Some ''0123'') None (Some ''Cigar'') None) = ''tobacco''"
    by (simp add: classify_item_eq_spec classify_spec_def supplied_def py_or_def keyword_category_def lower_def
        lower_char_def)
  show ?thesis
    using c d e cache_holds_only_pattern_categories [of "[(Some ''0123'', None, Some ''Craft Beer'', None)]"] by blast
qed

section \<open>Properties of decimal arithmetic\<close>

declare ndigits.simps [simp del]

lemma ndigits_bound: "n < 10 ^ k \<Longrightarrow> 0 < k \<Longrightarrow> ndigits n \<le> k"
proof (induction n arbitrary: k rule: ndigits.induct)
  case (1 n)
  show ?case
  proof (cases "n < 10")
    case True
    then show ?thesis using "1.prems" by (simp add: ndigits.simps [of n])
  next
    case False
    obtain j where k: "k = Suc j" using "1.prems" by (cases k) auto
    have j: "0 < j" using False "1.prems" k by (cases j) auto
    have "n div 10 < 10 ^ j" using "1.prems" k by simp
    from "1.IH" [OF False this j] show ?thesis using False k by (simp add: ndigits.simps [of n])
  qed
qed

lemma dec_fix_raises: "dec_fix d = Inl e \<Longrightarrow> e = Overflow"
  by (auto simp: dec_fix_def Let_def split: if_splits)

lemma dec_fix_id:
  assumes "\<bar>coefficient d\<bar> < 10 ^ 28" and "Etiny \<le> exponent d" and "exponent d \<le> Etop"
  shows "dec_fix d = Inr d"
proof -
  obtain c e where d: "d = \<lparr>coefficient = c, exponent = e\<rparr>" by (cases d)
  show ?thesis
  proof (cases "c = 0")
    case True
    have "Etop \<le> Emax" by (simp add: Etop_def context_prec_def)
    then have "min (max e Etiny) Emax = e" using assms(2,3) d by simp
    then show ?thesis using True d by (simp add: dec_fix_def)
  next
    case False
    have "nat \<bar>c\<bar> < 10 ^ 28" using assms(1) d by simp
    then have n: "ndigits (nat \<bar>c\<bar>) \<le> 28" by (rule ndigits_bound) simp
    have f1: "\<not> Etop < int (ndigits (nat \<bar>c\<bar>)) + e - int context_prec"
      using n assms(3) d by (simp add: context_prec_def)
    have f2: "\<not> e < max (int (ndigits (nat \<bar>c\<bar>)) + e - int context_prec) Etiny"
      using n assms(2) d by (simp add: context_prec_def)
    show ?thesis using False f1 f2 by (simp add: dec_fix_def Let_def d)
  qed
qed

lemma scaled_add:
  assumes "- int m \<le> ea" and "- int m \<le> eb"
  shows "scaled m \<lparr>coefficient = ca * 10 ^ nat (ea - min ea eb) + cb * 10 ^ nat (eb - min ea eb),
                   exponent = min ea eb\<rparr>
         = scaled m \<lparr>coefficient = ca, exponent = ea\<rparr> + scaled m \<lparr>coefficient = cb, exponent = eb\<rparr>"
proof -
  let ?e = "min ea eb"
  have x: "nat (ea - ?e) + nat (?e + int m) = nat (ea + int m)" using assms by linarith
  have y: "nat (eb - ?e) + nat (?e + int m) = nat (eb + int m)" using assms by linarith
  have "(ca * 10 ^ nat (ea - ?e) + cb * 10 ^ nat (eb - ?e)) * 10 ^ nat (?e + int m)
        = ca * (10 ^ nat (ea - ?e) * 10 ^ nat (?e + int m))
          + cb * (10 ^ nat (eb - ?e) * 10 ^ nat (?e + int m))"
    by (simp only: distrib_right mult.assoc)
  also have "\<dots> = ca * 10 ^ nat (ea + int m) + cb * 10 ^ nat (eb + int m)"
    by (simp only: power_add [symmetric] x y)
  finally show ?thesis by (simp add: scaled_def)
qed

lemma abs_coefficient_le_scaled: "\<bar>coefficient d\<bar> \<le> \<bar>scaled m d\<bar>"
proof -
  have "(1::int) \<le> 10 ^ nat (exponent d + int m)" by simp
  then have "\<bar>coefficient d\<bar> * 1 \<le> \<bar>coefficient d\<bar> * 10 ^ nat (exponent d + int m)"
    by (intro mult_left_mono) simp_all
  then show ?thesis by (simp add: scaled_def abs_mult)
qed

lemma dec_add_exact:
  assumes m: "m \<le> 28"
    and a: "- int m \<le> exponent a" "exponent a \<le> Etop"
    and b: "- int m \<le> exponent b" "exponent b \<le> Etop"
    and s: "\<bar>scaled m a + scaled m b\<bar> < 10 ^ 28"
  shows "\<exists>r. dec_add a b = Inr r \<and> scaled m r = scaled m a + scaled m b
            \<and> exponent r = min (exponent a) (exponent b)"
proof -
  obtain ca ea where da: "a = \<lparr>coefficient = ca, exponent = ea\<rparr>" by (cases a)
  obtain cb eb where db: "b = \<lparr>coefficient = cb, exponent = eb\<rparr>" by (cases b)
  let ?r = "\<lparr>coefficient = ca * 10 ^ nat (ea - min ea eb) + cb * 10 ^ nat (eb - min ea eb),
             exponent = min ea eb\<rparr>"
  have sc: "scaled m ?r = scaled m a + scaled m b"
    using scaled_add [of m ea eb ca cb] a(1) b(1) da db by simp
  have "\<bar>coefficient ?r\<bar> \<le> \<bar>scaled m ?r\<bar>" by (rule abs_coefficient_le_scaled)
  with s sc have c: "\<bar>coefficient ?r\<bar> < 10 ^ 28" by simp
  have t: "Etiny \<le> exponent ?r" using a(1) b(1) m da db
    by (simp add: Etiny_def Emin_def context_prec_def)
  have u: "exponent ?r \<le> Etop" using a(2) b(2) da db by simp
  have "dec_add a b = Inr ?r"
    using dec_fix_id [OF c t u] da db by (simp add: dec_add_def Let_def)
  then show ?thesis using sc da db by simp
qed

lemma dec_mul_int_exact:
  assumes m: "m \<le> 28"
    and p: "- int m \<le> exponent p" "exponent p \<le> Etop"
    and s: "\<bar>scaled m p * q\<bar> < 10 ^ 28"
  shows "\<exists>r. dec_mul p (dec_of_int q) = Inr r \<and> scaled m r = scaled m p * q
            \<and> exponent r = exponent p"
proof -
  let ?r = "\<lparr>coefficient = coefficient p * q, exponent = exponent p\<rparr>"
  have sc: "scaled m ?r = scaled m p * q" by (simp add: scaled_def mult_ac)
  have "\<bar>coefficient ?r\<bar> \<le> \<bar>scaled m ?r\<bar>" by (rule abs_coefficient_le_scaled)
  with s sc have c: "\<bar>coefficient ?r\<bar> < 10 ^ 28" by simp
  have t: "Etiny \<le> exponent ?r" using p(1) m
    by (simp add: Etiny_def Emin_def context_prec_def)
  have u: "exponent ?r \<le> Etop" using p(2) by simp
  have "dec_mul p (dec_of_int q) = Inr ?r"
    using dec_fix_id [OF c t u] by (simp add: dec_mul_def dec_of_int_def)
  then show ?thesis using sc by simp
qed

lemma dec_value_scaled:
  assumes "- int m \<le> exponent d"
  shows "dec_value d = of_int (scaled m d) / 10 ^ m"
proof (cases "0 \<le> exponent d")
  case True
  have "nat (exponent d + int m) = nat (exponent d) + m" using True by linarith
  then show ?thesis using True by (simp add: dec_value_def scaled_def power_add)
next
  case False
  have "m = nat (- exponent d) + nat (exponent d + int m)" using False assms by linarith
  then have "(10::rat) ^ m = 10 ^ nat (- exponent d) * 10 ^ nat (exponent d + int m)"
    by (metis power_add)
  then show ?thesis using False by (simp add: dec_value_def scaled_def)
qed

lemma decimal_eqI:
  "scaled m a = scaled m b \<Longrightarrow> exponent a = exponent b \<Longrightarrow> a = (b :: decimal)"
  by (cases a, cases b) (simp add: scaled_def)

section \<open>Properties of the policy engine\<close>

lemma item_of_data_fields:
  "item_of_data cache d = (i, cache') \<Longrightarrow>
     item_upc i = get_upc d \<and> item_sku i = get_sku d \<and> item_product_name i = get_product_name d
   \<and> item_price i = price_of d \<and> item_quantity i = quantity_of d
   \<and> item_is_eligible i = is_eligible (item_category i)
   \<and> (truthy (get_category d) \<longrightarrow> item_category i = the (get_category d))"
  unfolding item_of_data_def Item_init_def price_of_def quantity_of_def
  by (auto split: prod.splits option.splits if_splits)

lemma dec_add_raises: "dec_add a b = Inl e \<Longrightarrow> e = Overflow"
  unfolding dec_add_def Let_def by (rule dec_fix_raises)

lemma dec_mul_raises: "dec_mul a b = Inl e \<Longrightarrow> e = Overflow"
  unfolding dec_mul_def by (rule dec_fix_raises)

lemma decimal_total_raises: "decimal_total a L = Inl e \<Longrightarrow> e = Overflow"
proof (induction L arbitrary: a)
  case Nil
  then show ?case by simp
next
  case (Cons i L)
  show ?case
  proof (cases "line_total i")
    case (Inl x)
    with Cons.prems have "x = e" by simp
    with Inl show ?thesis using dec_mul_raises by (simp add: line_total_def)
  next
    case l: (Inr l)
    show ?thesis
    proof (cases "dec_add a l")
      case (Inl x)
      with Cons.prems l have "x = e" by simp
      with Inl show ?thesis using dec_add_raises by simp
    next
      case (Inr a')
      with Cons.prems l have "decimal_total a' L = Inl e" by simp
      then show ?thesis by (rule Cons.IH)
    qed
  qed
qed

lemma eligibility_loop_built:
  "fst (eligibility_loop ds cache P a D) =
     (case decimal_total a (filter item_is_eligible (built_items cache ds)) of
        Inl e \<Rightarrow> Inl e
      | Inr a' \<Rightarrow> Inr (P @ built_items cache ds, a',
                        D @ filter (\<lambda>i. \<not> item_is_eligible i) (built_items cache ds)))"
proof (induction ds arbitrary: cache P a D)
  case Nil
  then show ?case by simp
next
  case (Cons d ds)
  obtain i c' where e: "item_of_data cache d = (i, c')" by (cases "item_of_data cache d")
  show ?case
  proof (cases "item_is_eligible i")
    case False
    then show ?thesis using Cons.IH [of c' "P @ [i]" a "D @ [i]"] by (simp add: e split: sum.splits)
  next
    case True
    show ?thesis
    proof (cases "dec_mul (item_price i) (dec_of_int (item_quantity i))")
      case (Inl x)
      then show ?thesis using True by (simp add: e line_total_def split: sum.splits)
    next
      case l: (Inr l)
      show ?thesis
      proof (cases "dec_add a l")
        case (Inl x)
        then show ?thesis using True l by (simp add: e line_total_def split: sum.splits)
      next
        case (Inr a')
        then show ?thesis using True l Cons.IH [of c' "P @ [i]" a' D]
          by (simp add: e line_total_def split: sum.splits)
      qed
    qed
  qed
qed

lemma length_built_items: "length (built_items cache ds) = length ds"
  by (induction ds arbitrary: cache) (auto split: prod.splits)


lemma check_built:
  "fst (check_transaction_eligibility cache items) =
     (case decimal_total \<lparr>coefficient = 0, exponent = - 2\<rparr>
             (filter item_is_eligible (built_items cache items)) of
        Inl e \<Rightarrow> Inl e
      | Inr a \<Rightarrow>
          Inr (if length (filter (\<lambda>i. \<not> item_is_eligible i) (built_items cache items)) = 0
               then APPROVE
               else if length (filter (\<lambda>i. \<not> item_is_eligible i) (built_items cache items))
                       = length (built_items cache items)
               then DENY
               else PARTIAL,
               built_items cache items, a))"
proof -
  obtain r c where l: "eligibility_loop items cache [] \<lparr>coefficient = 0, exponent = - 2\<rparr> [] = (r, c)"
    by (cases "eligibility_loop items cache [] \<lparr>coefficient = 0, exponent = - 2\<rparr> []")
  have r: "r = (case decimal_total \<lparr>coefficient = 0, exponent = - 2\<rparr>
             (filter item_is_eligible (built_items cache items)) of
        Inl e \<Rightarrow> Inl e
      | Inr a' \<Rightarrow> Inr ([] @ built_items cache items, a',
                        [] @ filter (\<lambda>i. \<not> item_is_eligible i) (built_items cache items)))"
    using eligibility_loop_built [of items cache "[]" "\<lparr>coefficient = 0, exponent = - 2\<rparr>" "[]"] l
    by simp
  show ?thesis
    unfolding check_transaction_eligibility_def l r
    by (simp split: sum.splits)
qed

lemma check_returns:
  assumes "fst (check_transaction_eligibility cache items) = Inr (decision, processed, approved)"
  shows "processed = built_items cache items"
    and "decision = (if length (filter (\<lambda>i. \<not> item_is_eligible i) processed) = 0 then APPROVE
                     else if length (filter (\<lambda>i. \<not> item_is_eligible i) processed)
                             = length processed
                     then DENY else PARTIAL)"
    and "decimal_total \<lparr>coefficient = 0, exponent = - 2\<rparr> (filter item_is_eligible processed)
         = Inr approved"
  using assms by (auto simp: check_built split: sum.splits)

lemma cache_extends_refl: "cache_extends c c"
  by (simp add: cache_extends_def)

lemma classify_spec_hit:
  "supplied ident = Some i \<Longrightarrow> c i = Some v \<Longrightarrow> fst (classify_spec c ident name None) = v"
  by (simp add: classify_spec_def)

lemma classify_spec_None_eligible:
  assumes e: "classify_spec c ident name None = (r, c')" and el: "is_eligible r"
  shows "\<exists>i. supplied ident = Some i \<and> c i = Some r"
proof -
  have "None \<notin> Some ` (ALLOWED_CATEGORIES \<union> DISALLOWED_CATEGORIES)" by auto
  with classify_spec_cases [OF e]
  have "(\<exists>i. supplied ident = Some i \<and> c i = Some r) \<or> r \<in> pattern_categories \<or> r = ''unknown''"
    by blast
  with el pattern_not_eligible unknown_not_eligible show ?thesis by blast
qed

lemma classify_spec_extends_eligible:
  assumes x: "cache_extends c0 c"
  shows "is_eligible (fst (classify_spec c ident name None))
       = is_eligible (fst (classify_spec c0 ident name None))"
proof
  assume a: "is_eligible (fst (classify_spec c ident name None))"
  obtain r c' where e: "classify_spec c ident name None = (r, c')"
    by (cases "classify_spec c ident name None")
  from classify_spec_None_eligible [OF e] a e obtain i where
    i: "supplied ident = Some i" "c i = Some r" by auto
  from x have "c i = c0 i \<or> (c0 i = None \<and> c i \<in> Some ` pattern_categories)"
    by (simp add: cache_extends_def)
  moreover have "r \<notin> pattern_categories"
    using a e pattern_not_eligible by auto
  ultimately have "c0 i = Some r" using i by auto
  then have "fst (classify_spec c0 ident name None) = r"
    using classify_spec_hit [of ident i c0 r name] i(1) by simp
  with a e show "is_eligible (fst (classify_spec c0 ident name None))" by simp
next
  assume a: "is_eligible (fst (classify_spec c0 ident name None))"
  obtain r c' where e: "classify_spec c0 ident name None = (r, c')"
    by (cases "classify_spec c0 ident name None")
  from classify_spec_None_eligible [OF e] a e obtain i where
    i: "supplied ident = Some i" "c0 i = Some r" by auto
  from x have "c i = c0 i \<or> (c0 i = None \<and> c i \<in> Some ` pattern_categories)"
    by (simp add: cache_extends_def)
  then have "c i = Some r" using i by auto
  then have "fst (classify_spec c ident name None) = r"
    using classify_spec_hit [of ident i c r name] i(1) by simp
  with a e show "is_eligible (fst (classify_spec c ident name None))" by simp
qed

lemma classify_spec_extends_step:
  assumes x: "cache_extends c0 c" and e: "classify_spec c ident name declared = (r, c')"
  shows "cache_extends c0 c'"
proof (cases "c' = c")
  case True
  then show ?thesis using x by simp
next
  case False
  with classify_spec_cases [OF e] obtain i where
    i: "supplied ident = Some i" "c i = None" "r \<in> pattern_categories" "c' = c(i \<mapsto> r)"
    by (auto split: option.splits)
  from x have "c i = c0 i \<or> (c0 i = None \<and> c i \<in> Some ` pattern_categories)"
    by (simp add: cache_extends_def)
  with i(2) have "c0 i = None" by auto
  then show ?thesis using x i by (auto simp: cache_extends_def)
qed

lemma item_of_data_extends_step:
  assumes x: "cache_extends c0 c" and e: "item_of_data c d = (i, c')"
  shows "cache_extends c0 c'"
proof (cases "truthy (get_category d)")
  case True
  then have "c' = c" using e
    by (auto simp: item_of_data_def Item_init_def split: option.splits)
  then show ?thesis using x by simp
next
  case False
  obtain r where "classify_spec c (py_or (get_upc d) (get_sku d)) (get_product_name d) None = (r, c')"
    using e False
    by (auto simp: item_of_data_def Item_init_def classify_item_eq_spec split: prod.splits)
  from classify_spec_extends_step [OF x this] show ?thesis .
qed

lemma item_of_data_extends_eligible:
  assumes x: "cache_extends c0 c"
  shows "item_is_eligible (fst (item_of_data c d)) = item_is_eligible (fst (item_of_data c0 d))"
proof (cases "truthy (get_category d)")
  case True
  then show ?thesis
    by (auto simp: item_of_data_def Item_init_def split: option.splits)
next
  case False
  have "item_is_eligible (fst (item_of_data k d))
        = is_eligible (fst (classify_spec k (py_or (get_upc d) (get_sku d)) (get_product_name d) None))"
    for k
    using False
    by (simp add: item_of_data_def Item_init_def classify_item_eq_spec split: prod.splits)
  then show ?thesis
    using classify_spec_extends_eligible [OF x] by simp
qed


lemma built_items_eligible:
  "cache_extends c0 c \<Longrightarrow>
   map (\<lambda>i. g (item_price i) (item_quantity i)) (filter item_is_eligible (built_items c ds))
   = map (\<lambda>d. g (price_of d) (quantity_of d))
       (filter (\<lambda>d. item_is_eligible (fst (item_of_data c0 d))) ds)"
proof (induction ds arbitrary: c)
  case Nil
  then show ?case by simp
next
  case (Cons d ds)
  obtain i c' where e: "item_of_data c d = (i, c')" by (cases "item_of_data c d")
  have el: "item_is_eligible i = item_is_eligible (fst (item_of_data c0 d))"
    using item_of_data_extends_eligible [OF Cons.prems, of d] e by simp
  have v: "item_price i = price_of d" "item_quantity i = quantity_of d"
    using item_of_data_fields [OF e] by blast+
  have ih: "map (\<lambda>i. g (item_price i) (item_quantity i)) (filter item_is_eligible (built_items c' ds))
   = map (\<lambda>d. g (price_of d) (quantity_of d))
       (filter (\<lambda>d. item_is_eligible (fst (item_of_data c0 d))) ds)"
    by (rule Cons.IH) (rule item_of_data_extends_step [OF Cons.prems e])
  show ?case using el v ih by (simp add: e)
qed

lemma built_items_denied:
  "cache_extends c0 c \<Longrightarrow>
   length (filter (\<lambda>i. \<not> item_is_eligible i) (built_items c ds))
   = length (filter (\<lambda>d. \<not> item_is_eligible (fst (item_of_data c0 d))) ds)"
proof (induction ds arbitrary: c)
  case Nil
  then show ?case by simp
next
  case (Cons d ds)
  obtain i c' where e: "item_of_data c d = (i, c')" by (cases "item_of_data c d")
  have el: "item_is_eligible i = item_is_eligible (fst (item_of_data c0 d))"
    using item_of_data_extends_eligible [OF Cons.prems, of d] e by simp
  have ih: "length (filter (\<lambda>i. \<not> item_is_eligible i) (built_items c' ds))
   = length (filter (\<lambda>d. \<not> item_is_eligible (fst (item_of_data c0 d))) ds)"
    by (rule Cons.IH) (rule item_of_data_extends_step [OF Cons.prems e])
  show ?case using el ih by (simp add: e)
qed

lemma length_filter_perm: "mset xs = mset ys \<Longrightarrow> length (filter P xs) = length (filter P ys)"
proof -
  assume "mset xs = mset ys"
  then have "mset (filter P xs) = mset (filter P ys)" by simp
  then show ?thesis by (metis size_mset)
qed

lemma built_items_flags:
  "\<forall>i \<in> set (built_items c ds). item_is_eligible i = is_eligible (item_category i)"
proof (induction ds arbitrary: c)
  case Nil
  then show ?case by simp
next
  case (Cons d ds)
  obtain i c' where e: "item_of_data c d = (i, c')" by (cases "item_of_data c d")
  show ?case using item_of_data_fields [OF e] Cons.IH [of c'] by (simp add: e)
qed


lemma cache_after_extends: "cache_extends c0 c \<Longrightarrow> cache_extends c0 (cache_after c ds)"
proof (induction ds arbitrary: c)
  case Nil
  then show ?case by simp
next
  case (Cons d ds)
  obtain i c' where e: "item_of_data c d = (i, c')" by (cases "item_of_data c d")
  from Cons.IH [OF item_of_data_extends_step [OF Cons.prems e]] show ?case by (simp add: e)
qed

lemma built_items_nth:
  "k < length ds \<Longrightarrow>
   built_items c ds ! k = fst (item_of_data (cache_after c (take k ds)) (ds ! k))"
proof (induction ds arbitrary: c k)
  case Nil
  then show ?case by simp
next
  case (Cons d ds)
  obtain i c' where e: "item_of_data c d = (i, c')" by (cases "item_of_data c d")
  show ?case
  proof (cases k)
    case 0
    then show ?thesis by (simp add: e)
  next
    case (Suc j)
    then have "j < length ds" using Cons.prems by simp
    from Cons.IH [OF this, of c'] show ?thesis using Suc by (simp add: e)
  qed
qed

subsection \<open>Item lists on which the arithmetic is exact\<close>

lemma Min_insert_min:
  "finite S \<Longrightarrow> Min (insert (min x y) S) = Min (insert x (insert (y :: int) S))"
  by (cases "S = {}") (simp_all add: min.assoc)

lemma decimal_total_exact:
  assumes m: "m \<le> 28"
  shows "- int m \<le> exponent a \<Longrightarrow> exponent a \<le> Etop \<Longrightarrow>
     (\<forall>i \<in> set L. - int m \<le> exponent (item_price i) \<and> exponent (item_price i) \<le> Etop) \<Longrightarrow>
     \<bar>scaled m a\<bar> + (\<Sum>i \<leftarrow> L. \<bar>scaled m (item_price i) * item_quantity i\<bar>) < 10 ^ 28 \<Longrightarrow>
     \<exists>r. decimal_total a L = Inr r
        \<and> scaled m r = scaled m a + (\<Sum>i \<leftarrow> L. scaled m (item_price i) * item_quantity i)
        \<and> exponent r = Min (insert (exponent a) (set (map (\<lambda>i. exponent (item_price i)) L)))"
proof (induction L arbitrary: a)
  case Nil
  then show ?case by simp
next
  case (Cons i L)
  let ?t = "scaled m (item_price i) * item_quantity i"
  let ?S = "\<Sum>i \<leftarrow> L. \<bar>scaled m (item_price i) * item_quantity i\<bar>"
  have nn: "0 \<le> ?S" by (rule sum_list_nonneg) auto
  have b: "\<bar>scaled m a\<bar> + \<bar>?t\<bar> + ?S < 10 ^ 28" using Cons.prems(4) by simp
  have t: "\<bar>?t\<bar> < 10 ^ 28" using b nn by linarith
  have pi: "- int m \<le> exponent (item_price i)" "exponent (item_price i) \<le> Etop"
    using Cons.prems(3) by simp_all
  from dec_mul_int_exact [OF m pi t] obtain l where
    l: "line_total i = Inr l" "scaled m l = ?t" "exponent l = exponent (item_price i)"
    by (auto simp: line_total_def)
  have "\<bar>scaled m a + scaled m l\<bar> < 10 ^ 28" using b nn l(2) by linarith
  from dec_add_exact [OF m Cons.prems(1,2) _ _ this] pi l(3) obtain a' where
    a': "dec_add a l = Inr a'" "scaled m a' = scaled m a + ?t"
        "exponent a' = min (exponent a) (exponent (item_price i))"
    using l(2) by auto
  have e1: "- int m \<le> exponent a'" using a'(3) Cons.prems(1) pi(1) by simp
  have e2: "exponent a' \<le> Etop" using a'(3) Cons.prems(2) by simp
  have e3: "\<forall>i \<in> set L. - int m \<le> exponent (item_price i) \<and> exponent (item_price i) \<le> Etop"
    using Cons.prems(3) by simp
  have e4: "\<bar>scaled m a'\<bar> + ?S < 10 ^ 28" using b a'(2) by linarith
  from Cons.IH [OF e1 e2 e3 e4] obtain r where
    r: "decimal_total a' L = Inr r"
       "scaled m r = scaled m a' + (\<Sum>i \<leftarrow> L. scaled m (item_price i) * item_quantity i)"
       "exponent r = Min (insert (exponent a') (set (map (\<lambda>i. exponent (item_price i)) L)))"
    by blast
  have "decimal_total a (i # L) = Inr r" using l(1) a'(1) r(1) by simp
  moreover have "scaled m r = scaled m a
       + (\<Sum>i \<leftarrow> i # L. scaled m (item_price i) * item_quantity i)"
    using r(2) a'(2) by simp
  moreover have "exponent r
       = Min (insert (exponent a) (set (map (\<lambda>i. exponent (item_price i)) (i # L))))"
    using r(3) a'(3) Min_insert_min [of "set (map (\<lambda>i. exponent (item_price i)) L)"]
    by simp
  ultimately show ?case by blast
qed

lemma sum_list_filter_le:
  "(\<forall>x \<in> set xs. (0::int) \<le> f x) \<Longrightarrow> sum_list (map f (filter P xs)) \<le> sum_list (map f xs)"
  by (induction xs) auto

lemma value_sum:
  "\<forall>i \<in> set L. - int m \<le> exponent (item_price i) \<Longrightarrow>
   (\<Sum>i \<leftarrow> L. dec_value (item_price i) * of_int (item_quantity i))
   = of_int (\<Sum>i \<leftarrow> L. scaled m (item_price i) * item_quantity i) / 10 ^ m"
  by (induction L) (simp_all add: dec_value_scaled [of m] add_divide_distrib)

lemma check_exact:
  assumes x: "exact_amounts m items"
  shows "\<exists>approved.
     fst (check_transaction_eligibility cache items)
       = Inr (if length (filter (\<lambda>d. \<not> item_is_eligible (fst (item_of_data cache d))) items) = 0
              then APPROVE
              else if length (filter (\<lambda>d. \<not> item_is_eligible (fst (item_of_data cache d))) items)
                      = length items
              then DENY else PARTIAL,
              built_items cache items, approved)
     \<and> scaled m approved
       = (\<Sum>d \<leftarrow> filter (\<lambda>d. item_is_eligible (fst (item_of_data cache d))) items.
            scaled m (price_of d) * quantity_of d)
     \<and> exponent approved
       = Min (insert (- 2) (set (map (\<lambda>d. exponent (price_of d))
                (filter (\<lambda>d. item_is_eligible (fst (item_of_data cache d))) items))))
     \<and> - int m \<le> exponent approved
     \<and> dec_value approved
       = (\<Sum>i \<leftarrow> filter item_is_eligible (built_items cache items).
            dec_value (item_price i) * of_int (item_quantity i))"
proof -
  let ?E = "filter item_is_eligible (built_items cache items)"
  let ?F = "filter (\<lambda>d. item_is_eligible (fst (item_of_data cache d))) items"
  let ?z = "\<lparr>coefficient = 0, exponent = - 2\<rparr>"
  note be = built_items_eligible [OF cache_extends_refl, of _ cache items]
  from x have m: "2 \<le> m" "m \<le> 28"
    and ex: "\<forall>d \<in> set items. - int m \<le> exponent (price_of d) \<and> exponent (price_of d) \<le> Etop"
    and sm: "(\<Sum>d \<leftarrow> items. \<bar>scaled m (price_of d) * quantity_of d\<bar>) < 10 ^ 28"
    by (simp_all add: exact_amounts_def)
  have z1: "- int m \<le> exponent ?z" using m(1) by simp
  have z2: "exponent ?z \<le> Etop" by (simp add: Etop_def Emax_def context_prec_def)
  have z3: "scaled m ?z = 0" by (simp add: scaled_def)
  have "set (map (\<lambda>i. exponent (item_price i)) ?E) = set (map (\<lambda>d. exponent (price_of d)) ?F)"
    using be [of "\<lambda>p q. exponent p"] by simp
  then have exs: "(\<lambda>i. exponent (item_price i)) ` set ?E \<subseteq> (\<lambda>d. exponent (price_of d)) ` set items"
    by auto
  have exE: "\<forall>i \<in> set ?E. - int m \<le> exponent (item_price i) \<and> exponent (item_price i) \<le> Etop"
  proof
    fix i assume "i \<in> set ?E"
    then have "exponent (item_price i) \<in> (\<lambda>d. exponent (price_of d)) ` set items" using exs by blast
    then show "- int m \<le> exponent (item_price i) \<and> exponent (item_price i) \<le> Etop"
      using ex by auto
  qed
  have "(\<Sum>i \<leftarrow> ?E. \<bar>scaled m (item_price i) * item_quantity i\<bar>)
        = (\<Sum>d \<leftarrow> ?F. \<bar>scaled m (price_of d) * quantity_of d\<bar>)"
    using be [of "\<lambda>p q. \<bar>scaled m p * q\<bar>"] by simp
  also have "\<dots> \<le> (\<Sum>d \<leftarrow> items. \<bar>scaled m (price_of d) * quantity_of d\<bar>)"
    by (rule sum_list_filter_le) simp
  finally have bd: "\<bar>scaled m ?z\<bar> + (\<Sum>i \<leftarrow> ?E. \<bar>scaled m (item_price i) * item_quantity i\<bar>) < 10 ^ 28"
    using sm z3 by simp
  from decimal_total_exact [OF m(2) z1 z2 exE bd] obtain r where
    r: "decimal_total ?z ?E = Inr r"
       "scaled m r = scaled m ?z + (\<Sum>i \<leftarrow> ?E. scaled m (item_price i) * item_quantity i)"
       "exponent r = Min (insert (exponent ?z) (set (map (\<lambda>i. exponent (item_price i)) ?E)))"
    by blast
  have s1: "scaled m r = (\<Sum>d \<leftarrow> ?F. scaled m (price_of d) * quantity_of d)"
    using r(2) z3 be [of "\<lambda>p q. scaled m p * q"] by simp
  have s2: "exponent r = Min (insert (- 2) (set (map (\<lambda>d. exponent (price_of d)) ?F)))"
    using r(3) be [of "\<lambda>p q. exponent p"] by simp
  have "exponent r \<in> insert (- 2) (set (map (\<lambda>d. exponent (price_of d)) ?F))"
    unfolding s2 by (rule Min_in) simp_all
  then have s3: "- int m \<le> exponent r" using m(1) ex by auto
  have s4: "dec_value r = (\<Sum>i \<leftarrow> ?E. dec_value (item_price i) * of_int (item_quantity i))"
    using value_sum [of ?E m] exE r(2) z3 dec_value_scaled [OF s3] by simp
  have "fst (check_transaction_eligibility cache items)
       = Inr (if length (filter (\<lambda>d. \<not> item_is_eligible (fst (item_of_data cache d))) items) = 0
              then APPROVE
              else if length (filter (\<lambda>d. \<not> item_is_eligible (fst (item_of_data cache d))) items)
                      = length items
              then DENY else PARTIAL,
              built_items cache items, r)"
    unfolding check_built r(1) length_built_items
      built_items_denied [OF cache_extends_refl, of cache items]
    by simp
  with s1 s2 s3 s4 show ?thesis by blast
qed

lemma sum_list_perm_int:
  "mset xs = mset ys \<Longrightarrow> sum_list (map f xs) = sum_list (map (f :: 'a \<Rightarrow> int) ys)"
proof -
  assume "mset xs = mset ys"
  then have "mset (map f xs) = mset (map f ys)" by simp
  then have "sum_mset (mset (map f xs)) = sum_mset (mset (map f ys))" by simp
  then show ?thesis by (simp only: sum_mset_sum_list)
qed

lemma exact_amounts_perm:
  assumes "mset items' = mset items" and "exact_amounts m items"
  shows "exact_amounts m items'"
proof -
  have "set items' = set items" using assms(1) by (metis set_mset_mset)
  moreover have "(\<Sum>d \<leftarrow> items'. \<bar>scaled m (price_of d) * quantity_of d\<bar>)
        = (\<Sum>d \<leftarrow> items. \<bar>scaled m (price_of d) * quantity_of d\<bar>)"
    by (rule sum_list_perm_int [OF assms(1)])
  ultimately show ?thesis using assms(2) by (simp add: exact_amounts_def)
qed

lemma check_perm_exact:
  assumes p: "mset items' = mset items" and x: "exact_amounts m items"
  shows "\<exists>decision approved.
           fst (check_transaction_eligibility cache items)
             = Inr (decision, built_items cache items, approved)
         \<and> fst (check_transaction_eligibility cache items')
             = Inr (decision, built_items cache items', approved)"
proof -
  let ?P = "\<lambda>d. item_is_eligible (fst (item_of_data cache d))"
  from check_exact [OF x, of cache] obtain a where
    a: "fst (check_transaction_eligibility cache items)
       = Inr (if length (filter (\<lambda>d. \<not> ?P d) items) = 0 then APPROVE
              else if length (filter (\<lambda>d. \<not> ?P d) items) = length items
              then DENY else PARTIAL,
              built_items cache items, a)"
       "scaled m a = (\<Sum>d \<leftarrow> filter ?P items. scaled m (price_of d) * quantity_of d)"
       "exponent a = Min (insert (- 2) (set (map (\<lambda>d. exponent (price_of d)) (filter ?P items))))"
    by blast
  from check_exact [OF exact_amounts_perm [OF p x], of cache] obtain b where
    b: "fst (check_transaction_eligibility cache items')
       = Inr (if length (filter (\<lambda>d. \<not> ?P d) items') = 0 then APPROVE
              else if length (filter (\<lambda>d. \<not> ?P d) items') = length items'
              then DENY else PARTIAL,
              built_items cache items', b)"
       "scaled m b = (\<Sum>d \<leftarrow> filter ?P items'. scaled m (price_of d) * quantity_of d)"
       "exponent b = Min (insert (- 2) (set (map (\<lambda>d. exponent (price_of d)) (filter ?P items'))))"
    by blast
  have f: "mset (filter ?P items') = mset (filter ?P items)" using p by simp
  have "scaled m b = scaled m a"
    unfolding a(2) b(2) by (rule sum_list_perm_int [OF f])
  moreover have "set (filter ?P items') = set (filter ?P items)" using f by (metis set_mset_mset)
  then have "exponent b = exponent a" unfolding a(3) b(3) by simp
  ultimately have ba: "b = a" by (rule decimal_eqI)
  have l: "length items' = length items" using p by (metis size_mset)
  have n: "length (filter (\<lambda>d. \<not> ?P d) items') = length (filter (\<lambda>d. \<not> ?P d) items)"
    by (rule length_filter_perm [OF p])
  show ?thesis using a(1) b(1) unfolding ba l n by blast
qed

lemma check_perm_decision:
  assumes p: "mset items' = mset items"
    and r: "fst (check_transaction_eligibility cache items) = Inr (decision, processed, approved)"
    and r': "fst (check_transaction_eligibility cache items') = Inr (decision', processed', approved')"
  shows "decision' = decision"
proof -
  let ?P = "\<lambda>d. item_is_eligible (fst (item_of_data cache d))"
  have l: "length items' = length items" using p by (metis size_mset)
  have n: "length (filter (\<lambda>d. \<not> ?P d) items') = length (filter (\<lambda>d. \<not> ?P d) items)"
    by (rule length_filter_perm [OF p])
  have d: "decision = (if length (filter (\<lambda>d. \<not> ?P d) items) = 0 then APPROVE
              else if length (filter (\<lambda>d. \<not> ?P d) items) = length items
              then DENY else PARTIAL)"
    using check_returns(2) [OF r] unfolding check_returns(1) [OF r] length_built_items
      built_items_denied [OF cache_extends_refl, of cache items] .
  have d': "decision' = (if length (filter (\<lambda>d. \<not> ?P d) items') = 0 then APPROVE
              else if length (filter (\<lambda>d. \<not> ?P d) items') = length items'
              then DENY else PARTIAL)"
    using check_returns(2) [OF r'] unfolding check_returns(1) [OF r'] length_built_items
      built_items_denied [OF cache_extends_refl, of cache items'] .
  show ?thesis unfolding d d' l n ..
qed

lemma built_items_position:
  assumes k: "k < length items"
  shows "built_items cache items ! k
           = fst (item_of_data (cache_after cache (take k items)) (items ! k))"
    and "item_upc (built_items cache items ! k) = get_upc (items ! k)"
    and "item_sku (built_items cache items ! k) = get_sku (items ! k)"
    and "item_product_name (built_items cache items ! k) = get_product_name (items ! k)"
    and "item_price (built_items cache items ! k) = price_of (items ! k)"
    and "item_quantity (built_items cache items ! k) = quantity_of (items ! k)"
    and "item_is_eligible (built_items cache items ! k)
           = item_is_eligible (fst (item_of_data cache (items ! k)))"
    and "truthy (get_category (items ! k)) \<longrightarrow>
           item_category (built_items cache items ! k) = the (get_category (items ! k))"
proof -
  let ?c = "cache_after cache (take k items)"
  obtain i c' where e: "item_of_data ?c (items ! k) = (i, c')"
    by (cases "item_of_data ?c (items ! k)")
  have n: "built_items cache items ! k = i" using built_items_nth [OF k, of cache] e by simp
  note f = item_of_data_fields [OF e]
  have x: "cache_extends cache ?c" by (rule cache_after_extends [OF cache_extends_refl])
  show "built_items cache items ! k
           = fst (item_of_data (cache_after cache (take k items)) (items ! k))"
    using n e by simp
  show "item_upc (built_items cache items ! k) = get_upc (items ! k)" using n f by simp
  show "item_sku (built_items cache items ! k) = get_sku (items ! k)" using n f by simp
  show "item_product_name (built_items cache items ! k) = get_product_name (items ! k)"
    using n f by simp
  show "item_price (built_items cache items ! k) = price_of (items ! k)" using n f by simp
  show "item_quantity (built_items cache items ! k) = quantity_of (items ! k)" using n f by simp
  show "item_is_eligible (built_items cache items ! k)
           = item_is_eligible (fst (item_of_data cache (items ! k)))"
    using item_of_data_extends_eligible [OF x, of "items ! k"] n e by simp
  show "truthy (get_category (items ! k)) \<longrightarrow>
           item_category (built_items cache items ! k) = the (get_category (items ! k))"
    using n f by simp
qed

text \<open>The definitions an evaluation of the policy engine on given items unfolds.\<close>

lemmas eval_policy =
  check_transaction_eligibility_def item_of_data_def Item_init_def is_eligible_def
  ALLOWED_CATEGORIES_def DISALLOWED_CATEGORIES_def classify_item_eq_spec classify_spec_def
  supplied_def py_or_def keyword_category_def lower_def lower_char_def
  dec_mul_def dec_add_def dec_fix_def dec_of_int_def Let_def ndigits.simps round_half_even_def
  context_prec_def Etop_def Etiny_def Emax_def Emin_def dairy_def beer_def

subsection \<open>Decision and approved amount\<close>

text \<open>
  C4, as the code has it. Whenever policy evaluation returns, the decision is approve when
  no returned item is flagged ineligible, deny when all are, partial otherwise; one item is
  returned for every input item, each flagged by \<^verbatim>\<open>is_eligible\<close> of its category; and the
  approved amount is the decimal sum, from \<^verbatim>\<open>Decimal("0.00")\<close> and in input order, of
  price times quantity over the returned items flagged eligible, each product and each
  partial sum rounded to 28 digits. The only way not to return is a decimal
  \<^verbatim>\<open>Overflow\<close>. On an item list with \<^const>\<open>exact_amounts\<close> evaluation returns and the
  approved amount is the exact sum of price times quantity over the items flagged eligible.
  The empty list gives approve with amount zero.
\<close>

theorem policy_decision_and_amount:
  "(\<forall>decision processed approved.
      fst (check_transaction_eligibility cache items) = Inr (decision, processed, approved) \<longrightarrow>
        decision = (if length (filter (\<lambda>i. \<not> item_is_eligible i) processed) = 0 then APPROVE
                    else if length (filter (\<lambda>i. \<not> item_is_eligible i) processed)
                            = length processed
                    then DENY else PARTIAL)
      \<and> length processed = length items
      \<and> (\<forall>i \<in> set processed. item_is_eligible i = is_eligible (item_category i))
      \<and> decimal_total \<lparr>coefficient = 0, exponent = - 2\<rparr> (filter item_is_eligible processed)
          = Inr approved)
   \<and> (\<forall>e. fst (check_transaction_eligibility cache items) = Inl e \<longrightarrow> e = Overflow)
   \<and> (exact_amounts m items \<longrightarrow>
        (\<exists>decision processed approved.
           fst (check_transaction_eligibility cache items) = Inr (decision, processed, approved)
         \<and> dec_value approved
           = (\<Sum>i \<leftarrow> filter item_is_eligible processed.
                dec_value (item_price i) * of_int (item_quantity i))))
   \<and> fst (check_transaction_eligibility cache [])
       = Inr (APPROVE, [], \<lparr>coefficient = 0, exponent = - 2\<rparr>)"
proof (intro conjI allI impI)
  fix decision processed approved
  assume r: "fst (check_transaction_eligibility cache items) = Inr (decision, processed, approved)"
  note p = check_returns(1) [OF r]
  show "decision = (if length (filter (\<lambda>i. \<not> item_is_eligible i) processed) = 0 then APPROVE
                    else if length (filter (\<lambda>i. \<not> item_is_eligible i) processed)
                            = length processed
                    then DENY else PARTIAL)"
    by (rule check_returns(2) [OF r])
  show "length processed = length items" unfolding p by (rule length_built_items)
  show "\<forall>i \<in> set processed. item_is_eligible i = is_eligible (item_category i)"
    unfolding p by (rule built_items_flags)
  show "decimal_total \<lparr>coefficient = 0, exponent = - 2\<rparr> (filter item_is_eligible processed)
          = Inr approved"
    by (rule check_returns(3) [OF r])
next
  fix e
  assume "fst (check_transaction_eligibility cache items) = Inl e"
  then have "decimal_total \<lparr>coefficient = 0, exponent = - 2\<rparr>
               (filter item_is_eligible (built_items cache items)) = Inl e"
    by (simp add: check_built split: sum.splits)
  then show "e = Overflow" by (rule decimal_total_raises)
next
  assume "exact_amounts m items"
  from check_exact [OF this, of cache] show
    "\<exists>decision processed approved.
           fst (check_transaction_eligibility cache items) = Inr (decision, processed, approved)
         \<and> dec_value approved
           = (\<Sum>i \<leftarrow> filter item_is_eligible processed.
                dec_value (item_price i) * of_int (item_quantity i))"
    by blast
next
  show "fst (check_transaction_eligibility cache [])
       = Inr (APPROVE, [], \<lparr>coefficient = 0, exponent = - 2\<rparr>)"
    by (simp add: check_transaction_eligibility_def)
qed

text \<open>
  A dairy item of 3.50 twice and a beer of 5.00: the decision is partial and the approved
  amount is 7.00.
\<close>

theorem policy_decision_and_amount_witness:
  "exact_amounts 2 [dairy \<lparr>coefficient = 350, exponent = - 2\<rparr> 2,
                    beer \<lparr>coefficient = 500, exponent = - 2\<rparr> 1]
   \<and> (\<exists>processed.
         fst (check_transaction_eligibility Map.empty
               [dairy \<lparr>coefficient = 350, exponent = - 2\<rparr> 2,
                beer \<lparr>coefficient = 500, exponent = - 2\<rparr> 1])
         = Inr (PARTIAL, processed, \<lparr>coefficient = 700, exponent = - 2\<rparr>))
   \<and> dec_value \<lparr>coefficient = 700, exponent = - 2\<rparr> = 7"
proof -
  let ?items = "[dairy \<lparr>coefficient = 350, exponent = - 2\<rparr> 2,
                 beer \<lparr>coefficient = 500, exponent = - 2\<rparr> 1]"
  have x: "exact_amounts 2 ?items"
    by (simp add: exact_amounts_def dairy_def beer_def price_of_def quantity_of_def scaled_def
          Etop_def Emax_def context_prec_def)
  have v: "\<exists>processed. fst (check_transaction_eligibility Map.empty ?items)
         = Inr (PARTIAL, processed, \<lparr>coefficient = 700, exponent = - 2\<rparr>)"
    by (simp add: eval_policy)
  have d: "dec_value \<lparr>coefficient = 700, exponent = - 2\<rparr> = 7" by (simp add: dec_value_def)
  show ?thesis using policy_decision_and_amount [of Map.empty ?items 2] x v d by simp
qed

text \<open>
  The approved amount is not always the sum, and evaluation does not always return. Three
  dairy items of 9999999999999999999999999999.00, 0.40 and 0.40: the sum is
  9999999999999999999999999999.80, the approved amount is 9999999999999999999999999999.
  A dairy item of price \<open>1E+999999\<close> and quantity 10 raises \<^verbatim>\<open>Overflow\<close>.
\<close>

theorem policy_amount_not_exact_sum:
  "(\<exists>processed approved.
      fst (check_transaction_eligibility Map.empty
            [dairy \<lparr>coefficient = 999999999999999999999999999900, exponent = - 2\<rparr> 1,
             dairy \<lparr>coefficient = 40, exponent = - 2\<rparr> 1,
             dairy \<lparr>coefficient = 40, exponent = - 2\<rparr> 1])
      = Inr (APPROVE, processed, approved)
    \<and> approved = \<lparr>coefficient = 9999999999999999999999999999, exponent = 0\<rparr>
    \<and> (\<Sum>i \<leftarrow> filter item_is_eligible processed.
          dec_value (item_price i) * of_int (item_quantity i))
      = 9999999999999999999999999999 + 4 / 5
    \<and> dec_value approved
      \<noteq> (\<Sum>i \<leftarrow> filter item_is_eligible processed.
            dec_value (item_price i) * of_int (item_quantity i)))
   \<and> fst (check_transaction_eligibility Map.empty
            [dairy \<lparr>coefficient = 1, exponent = 999999\<rparr> 10])
     = Inl Overflow"
  by (simp add: eval_policy dec_value_def)

subsection \<open>Order of the items\<close>

text \<open>
  C8, as the code has it. Let two item lists be permutations of each other and be evaluated
  from the same cache state. Whenever both evaluations return, they return the same decision.
  When the list has \<^const>\<open>exact_amounts\<close>, both return, with the same decision and the same
  approved amount. The returned item list follows the input order: its \<open>k\<close>-th item is the
  \<^verbatim>\<open>Item\<close> constructed from the \<open>k\<close>-th input in the cache the inputs before it have left,
  with the identifiers, name, price and quantity of that input, its declared category when it
  has one, and the eligibility flag that input gets when it is evaluated alone.
\<close>

theorem policy_result_order_independent:
  assumes "mset items' = mset items"
  shows "(\<forall>decision processed approved decision' processed' approved'.
            fst (check_transaction_eligibility cache items) = Inr (decision, processed, approved)
          \<and> fst (check_transaction_eligibility cache items')
              = Inr (decision', processed', approved')
          \<longrightarrow> decision' = decision)
       \<and> (exact_amounts m items \<longrightarrow>
            (\<exists>decision processed processed' approved.
               fst (check_transaction_eligibility cache items)
                 = Inr (decision, processed, approved)
             \<and> fst (check_transaction_eligibility cache items')
                 = Inr (decision, processed', approved)))
       \<and> (\<forall>decision processed approved.
            fst (check_transaction_eligibility cache items) = Inr (decision, processed, approved)
            \<longrightarrow> length processed = length items
              \<and> (\<forall>k < length items.
                    processed ! k
                      = fst (item_of_data (cache_after cache (take k items)) (items ! k))
                  \<and> item_upc (processed ! k) = get_upc (items ! k)
                  \<and> item_sku (processed ! k) = get_sku (items ! k)
                  \<and> item_product_name (processed ! k) = get_product_name (items ! k)
                  \<and> item_price (processed ! k) = price_of (items ! k)
                  \<and> item_quantity (processed ! k) = quantity_of (items ! k)
                  \<and> item_is_eligible (processed ! k)
                      = item_is_eligible (fst (item_of_data cache (items ! k)))
                  \<and> (truthy (get_category (items ! k)) \<longrightarrow>
                        item_category (processed ! k) = the (get_category (items ! k)))))"
proof (intro conjI allI impI)
  fix decision processed approved decision' processed' approved'
  assume "fst (check_transaction_eligibility cache items) = Inr (decision, processed, approved)
          \<and> fst (check_transaction_eligibility cache items')
              = Inr (decision', processed', approved')"
  then show "decision' = decision" using check_perm_decision [OF assms] by blast
next
  assume "exact_amounts m items"
  from check_perm_exact [OF assms this, of cache] show
    "\<exists>decision processed processed' approved.
               fst (check_transaction_eligibility cache items)
                 = Inr (decision, processed, approved)
             \<and> fst (check_transaction_eligibility cache items')
                 = Inr (decision, processed', approved)"
    by blast
next
  fix decision processed approved
  assume r: "fst (check_transaction_eligibility cache items) = Inr (decision, processed, approved)"
  show "length processed = length items"
    unfolding check_returns(1) [OF r] by (rule length_built_items)
next
  fix decision processed approved k
  assume r: "fst (check_transaction_eligibility cache items) = Inr (decision, processed, approved)"
    and k: "k < length items"
  note p = check_returns(1) [OF r]
  note b = built_items_position [OF k, of cache]
  show "processed ! k = fst (item_of_data (cache_after cache (take k items)) (items ! k))"
    unfolding p by (rule b(1))
  show "item_upc (processed ! k) = get_upc (items ! k)" unfolding p by (rule b(2))
  show "item_sku (processed ! k) = get_sku (items ! k)" unfolding p by (rule b(3))
  show "item_product_name (processed ! k) = get_product_name (items ! k)"
    unfolding p by (rule b(4))
  show "item_price (processed ! k) = price_of (items ! k)" unfolding p by (rule b(5))
  show "item_quantity (processed ! k) = quantity_of (items ! k)" unfolding p by (rule b(6))
  show "item_is_eligible (processed ! k)
                      = item_is_eligible (fst (item_of_data cache (items ! k)))"
    unfolding p by (rule b(7))
  assume "truthy (get_category (items ! k))"
  then show "item_category (processed ! k) = the (get_category (items ! k))"
    unfolding p using b(8) by blast
qed

text \<open>A beer and a dairy item in both orders: partial, 7.00 approved, either way.\<close>

theorem policy_result_order_independent_witness:
  "mset [dairy \<lparr>coefficient = 350, exponent = - 2\<rparr> 2,
         beer \<lparr>coefficient = 500, exponent = - 2\<rparr> 1]
     = mset [beer \<lparr>coefficient = 500, exponent = - 2\<rparr> 1,
             dairy \<lparr>coefficient = 350, exponent = - 2\<rparr> 2]
   \<and> exact_amounts 2 [beer \<lparr>coefficient = 500, exponent = - 2\<rparr> 1,
                      dairy \<lparr>coefficient = 350, exponent = - 2\<rparr> 2]
   \<and> (\<exists>processed.
         fst (check_transaction_eligibility Map.empty
               [beer \<lparr>coefficient = 500, exponent = - 2\<rparr> 1,
                dairy \<lparr>coefficient = 350, exponent = - 2\<rparr> 2])
         = Inr (PARTIAL, processed, \<lparr>coefficient = 700, exponent = - 2\<rparr>))
   \<and> (\<exists>processed.
         fst (check_transaction_eligibility Map.empty
               [dairy \<lparr>coefficient = 350, exponent = - 2\<rparr> 2,
                beer \<lparr>coefficient = 500, exponent = - 2\<rparr> 1])
         = Inr (PARTIAL, processed, \<lparr>coefficient = 700, exponent = - 2\<rparr>))"
proof -
  let ?milk = "dairy \<lparr>coefficient = 350, exponent = - 2\<rparr> 2"
  let ?beer = "beer \<lparr>coefficient = 500, exponent = - 2\<rparr> 1"
  have p: "mset [?milk, ?beer] = mset [?beer, ?milk]" by (simp add: add_mset_commute)
  have x: "exact_amounts 2 [?beer, ?milk]"
    by (simp add: exact_amounts_def dairy_def beer_def price_of_def quantity_of_def scaled_def
          Etop_def Emax_def context_prec_def)
  have v: "\<exists>processed. fst (check_transaction_eligibility Map.empty [?beer, ?milk])
         = Inr (PARTIAL, processed, \<lparr>coefficient = 700, exponent = - 2\<rparr>)"
    by (simp add: eval_policy)
  from policy_result_order_independent [OF p, of Map.empty 2] x
  obtain decision processed processed' approved where
    r: "fst (check_transaction_eligibility Map.empty [?beer, ?milk])
          = Inr (decision, processed, approved)"
       "fst (check_transaction_eligibility Map.empty [?milk, ?beer])
          = Inr (decision, processed', approved)"
    by blast
  from v r(1) have "decision = PARTIAL" "approved = \<lparr>coefficient = 700, exponent = - 2\<rparr>"
    by auto
  with r(2) have "\<exists>processed. fst (check_transaction_eligibility Map.empty [?milk, ?beer])
         = Inr (PARTIAL, processed, \<lparr>coefficient = 700, exponent = - 2\<rparr>)"
    by blast
  with p x v show ?thesis by blast
qed

text \<open>
  The approved amount depends on the order. The three dairy items of
  9999999999999999999999999999.00, 0.40 and 0.40 are approved for
  9999999999999999999999999999 in this order and for \<open>1.000000000000000000000000000E+28\<close>
  with the large item last.
\<close>

theorem policy_amount_order_dependent:
  "mset [dairy \<lparr>coefficient = 40, exponent = - 2\<rparr> 1,
         dairy \<lparr>coefficient = 40, exponent = - 2\<rparr> 1,
         dairy \<lparr>coefficient = 999999999999999999999999999900, exponent = - 2\<rparr> 1]
     = mset [dairy \<lparr>coefficient = 999999999999999999999999999900, exponent = - 2\<rparr> 1,
             dairy \<lparr>coefficient = 40, exponent = - 2\<rparr> 1,
             dairy \<lparr>coefficient = 40, exponent = - 2\<rparr> 1]
   \<and> (\<exists>processed.
         fst (check_transaction_eligibility Map.empty
               [dairy \<lparr>coefficient = 999999999999999999999999999900, exponent = - 2\<rparr> 1,
                dairy \<lparr>coefficient = 40, exponent = - 2\<rparr> 1,
                dairy \<lparr>coefficient = 40, exponent = - 2\<rparr> 1])
         = Inr (APPROVE, processed,
                \<lparr>coefficient = 9999999999999999999999999999, exponent = 0\<rparr>))
   \<and> (\<exists>processed.
         fst (check_transaction_eligibility Map.empty
               [dairy \<lparr>coefficient = 40, exponent = - 2\<rparr> 1,
                dairy \<lparr>coefficient = 40, exponent = - 2\<rparr> 1,
                dairy \<lparr>coefficient = 999999999999999999999999999900, exponent = - 2\<rparr> 1])
         = Inr (APPROVE, processed,
                \<lparr>coefficient = 1000000000000000000000000000, exponent = 1\<rparr>))
   \<and> dec_value \<lparr>coefficient = 9999999999999999999999999999, exponent = 0\<rparr>
       \<noteq> dec_value \<lparr>coefficient = 1000000000000000000000000000, exponent = 1\<rparr>"
proof -
  let ?big = "dairy \<lparr>coefficient = 999999999999999999999999999900, exponent = - 2\<rparr> 1"
  let ?s = "dairy \<lparr>coefficient = 40, exponent = - 2\<rparr> 1"
  have p: "mset [?s, ?s, ?big] = mset [?big, ?s, ?s]" by (simp add: add_mset_commute)
  have a: "\<exists>processed. fst (check_transaction_eligibility Map.empty [?big, ?s, ?s])
         = Inr (APPROVE, processed,
                \<lparr>coefficient = 9999999999999999999999999999, exponent = 0\<rparr>)"
    by (simp add: eval_policy)
  have b: "\<exists>processed. fst (check_transaction_eligibility Map.empty [?s, ?s, ?big])
         = Inr (APPROVE, processed,
                \<lparr>coefficient = 1000000000000000000000000000, exponent = 1\<rparr>)"
    by (simp add: eval_policy)
  have c: "dec_value \<lparr>coefficient = 9999999999999999999999999999, exponent = 0\<rparr>
       \<noteq> dec_value \<lparr>coefficient = 1000000000000000000000000000, exponent = 1\<rparr>"
    by (simp add: dec_value_def)
  from p a b c show ?thesis by blast
qed

section \<open>Properties of the ledger\<close>

lemma mset_interleave: "ys \<in> set (interleave x xs) \<Longrightarrow> mset ys = add_mset x (mset xs)"
  by (induction xs arbitrary: ys) auto

lemma mset_orderings: "ys \<in> set (orderings xs) \<Longrightarrow> mset ys = mset xs"
  by (induction xs arbitrary: ys) (auto dest: mset_interleave)

lemma interleave_mem: "as @ x # bs \<in> set (interleave x (as @ bs))"
  by (induction as) (cases bs, auto)

lemma orderings_complete: "mset ys = mset xs \<Longrightarrow> ys \<in> set (orderings xs)"
proof (induction xs arbitrary: ys)
  case Nil
  then show ?case by simp
next
  case (Cons x xs)
  then have "x \<in> set ys" by (metis list.set_intros(1) mset_eq_setD)
  then obtain as bs where ys: "ys = as @ x # bs" by (auto dest: split_list)
  with Cons.prems have "mset (as @ bs) = mset xs" by simp
  then have "as @ bs \<in> set (orderings xs)" by (rule Cons.IH)
  then show ?case using interleave_mem [of as x bs] ys by auto
qed

lemma orderings_iff: "ys \<in> set (orderings xs) = (mset ys = mset xs)"
  using mset_orderings orderings_complete by blast

lemma order_by_iff:
  "h \<in> order_by_created_at_desc rows = (mset h = mset rows \<and> newest_first h)"
  by (auto simp: order_by_created_at_desc_def orderings_iff)

lemma sql_balance: "calculate_balance_from_ledger db uid
   = sum_list (map amount (filter (\<lambda>t. user_id t = uid) (transactions db)))"
  by (simp add: calculate_balance_from_ledger_def sql_sum_def)

lemma newest_first_spec_order:
  "newest_first (rev (sort_key (\<lambda>t. (created_at t, transaction_id t)) rows))"
proof -
  have "sorted (map (\<lambda>t. (created_at t, transaction_id t)) (sort_key (\<lambda>t. (created_at t, transaction_id t)) rows))"
    by (rule sorted_sort_key)
  then have "sorted_wrt (\<lambda>a b. (created_at a, transaction_id a) \<le> (created_at b, transaction_id b))
               (sort_key (\<lambda>t. (created_at t, transaction_id t)) rows)"
    by (simp add: sorted_map)
  then have "sorted_wrt (\<lambda>a b. created_at a \<le> created_at b)
               (sort_key (\<lambda>t. (created_at t, transaction_id t)) rows)"
    by (rule sorted_wrt_mono_rel [rotated]) (auto simp: less_eq_prod_def)
  then show ?thesis by (simp add: newest_first_def sorted_wrt_rev)
qed

lemma newest_first_unique:
  assumes d: "distinct (map created_at rows)"
    and a: "mset h1 = mset rows" "newest_first h1"
    and b: "mset h2 = mset rows" "newest_first h2"
  shows "h1 = h2"
proof -
  have s1: "sorted (rev (map created_at h1))" and s2: "sorted (rev (map created_at h2))"
    using a(2) b(2) by (simp_all add: newest_first_def sorted_wrt_rev sorted_wrt_map)
  have m1: "mset (map created_at h1) = mset (map created_at rows)"
    and m2: "mset (map created_at h2) = mset (map created_at rows)"
    using a(1) b(1) by simp_all
  have d1: "distinct (rev (map created_at h1))" and d2: "distinct (rev (map created_at h2))"
    using d m1 m2 by (metis distinct_rev mset_eq_imp_distinct_iff)+
  have st: "set (rev (map created_at h1)) = set (rev (map created_at h2))"
    using m1 m2 by (metis mset_eq_setD set_rev)
  have "rev (map created_at h1) = rev (map created_at h2)"
    using s1 d1 s2 d2 st by (rule sorted_distinct_set_unique)
  then have e: "map created_at h1 = map created_at h2" by simp
  have "inj_on created_at (set rows)" using d by (simp add: distinct_map)
  moreover have "set h1 = set rows" "set h2 = set rows"
    using a(1) b(1) by (auto dest: mset_eq_setD)
  ultimately have "inj_on created_at (set h1 \<union> set h2)" by simp
  with e show ?thesis by (simp add: inj_on_map_eq_map)
qed

lemma history_iff:
  "0 \<le> limit_n \<Longrightarrow> 0 \<le> offset_n \<Longrightarrow>
   r \<in> get_transaction_history db uid limit_n offset_n
   = (\<exists>ordered. mset ordered = mset (filter (\<lambda>t. user_id t = uid) (transactions db))
        \<and> newest_first ordered \<and> r = Inr (take (nat limit_n) (drop (nat offset_n) ordered)))"
  by (auto simp: get_transaction_history_def order_by_iff)

lemma newest_first_take_drop: "newest_first xs \<Longrightarrow> newest_first (take n (drop k xs))"
  unfolding newest_first_def
  by (metis sorted_wrt_drop sorted_wrt_take)

subsection \<open>History\<close>

text \<open>
  C9, as the code has it. For a limit and an offset that are not negative, every result the
  history query can deliver is the page (\<open>limit_n\<close> rows from row \<open>offset_n\<close>) of an
  ordering of the account's entries that is newest-first by creation time, so it is
  newest-first itself, holds at most \<open>limit_n\<close> rows and only entries of the account. The
  query has no tie-break: the history the specification describes (creation time, then entry
  identifier) is one of the possible results, and it is the only one when the creation times
  of the account's entries are pairwise distinct; then reading twice gives the same rows.
\<close>

theorem history_newest_first_paginated:
  assumes l: "0 \<le> limit_n" and f: "0 \<le> offset_n"
  shows "(\<forall>r \<in> get_transaction_history db uid limit_n offset_n.
            \<exists>h ordered. r = Inr h
              \<and> newest_first h \<and> int (length h) \<le> limit_n
              \<and> set h \<subseteq> {t \<in> set (transactions db). user_id t = uid}
              \<and> mset ordered = mset (filter (\<lambda>t. user_id t = uid) (transactions db))
              \<and> newest_first ordered
              \<and> h = take (nat limit_n) (drop (nat offset_n) ordered))
       \<and> Inr (history_spec db uid limit_n offset_n)
            \<in> get_transaction_history db uid limit_n offset_n
       \<and> (distinct (map created_at (filter (\<lambda>t. user_id t = uid) (transactions db))) \<longrightarrow>
            get_transaction_history db uid limit_n offset_n
              = {Inr (history_spec db uid limit_n offset_n)})"
proof -
  let ?rows = "filter (\<lambda>t. user_id t = uid) (transactions db)"
  let ?spec = "rev (sort_key (\<lambda>t. (created_at t, transaction_id t)) ?rows)"
  note hi = history_iff [OF l f]
  have 1: "\<forall>r \<in> get_transaction_history db uid limit_n offset_n.
            \<exists>h ordered. r = Inr h
              \<and> newest_first h \<and> int (length h) \<le> limit_n
              \<and> set h \<subseteq> {t \<in> set (transactions db). user_id t = uid}
              \<and> mset ordered = mset ?rows
              \<and> newest_first ordered
              \<and> h = take (nat limit_n) (drop (nat offset_n) ordered)"
  proof
    fix r assume "r \<in> get_transaction_history db uid limit_n offset_n"
    then obtain ordered where o: "mset ordered = mset ?rows" "newest_first ordered"
      "r = Inr (take (nat limit_n) (drop (nat offset_n) ordered))"
      by (auto simp: hi)
    let ?h = "take (nat limit_n) (drop (nat offset_n) ordered)"
    have "set ordered = set ?rows" using o(1) by (rule mset_eq_setD)
    moreover have "set ?h \<subseteq> set ordered"
      by (meson set_drop_subset set_take_subset subset_trans)
    ultimately have s: "set ?h \<subseteq> {t \<in> set (transactions db). user_id t = uid}" by auto
    have n: "newest_first ?h" using o(2) by (rule newest_first_take_drop)
    have ln: "int (length ?h) \<le> limit_n" using l by simp
    show "\<exists>h ordered. r = Inr h
              \<and> newest_first h \<and> int (length h) \<le> limit_n
              \<and> set h \<subseteq> {t \<in> set (transactions db). user_id t = uid}
              \<and> mset ordered = mset ?rows
              \<and> newest_first ordered
              \<and> h = take (nat limit_n) (drop (nat offset_n) ordered)"
      using o n ln s by (intro exI [of _ ?h] exI [of _ ordered] conjI) simp_all
  qed
  have 2: "Inr (history_spec db uid limit_n offset_n)
            \<in> get_transaction_history db uid limit_n offset_n"
    unfolding hi history_spec_def
    using newest_first_spec_order [of ?rows] by (intro exI [of _ ?spec]) simp
  have 3: "distinct (map created_at ?rows) \<longrightarrow>
    get_transaction_history db uid limit_n offset_n = {Inr (history_spec db uid limit_n offset_n)}"
  proof
    assume d: "distinct (map created_at ?rows)"
    have "r = Inr (history_spec db uid limit_n offset_n)"
      if "r \<in> get_transaction_history db uid limit_n offset_n" for r
    proof -
      from that obtain ordered where o: "mset ordered = mset ?rows" "newest_first ordered"
        "r = Inr (take (nat limit_n) (drop (nat offset_n) ordered))"
        by (auto simp: hi)
      have "ordered = ?spec"
        using d o(1) o(2) _ newest_first_spec_order [of ?rows]
        by (rule newest_first_unique) simp
      then show ?thesis by (simp add: o(3) history_spec_def)
    qed
    with 2 show "get_transaction_history db uid limit_n offset_n
                  = {Inr (history_spec db uid limit_n offset_n)}" by blast
  qed
  show ?thesis using 1 2 3 by (intro conjI)
qed

text \<open>Three entries created at different times: the page of two rows from row one.\<close>

theorem history_newest_first_paginated_witness:
  "get_transaction_history
     (ledger_of [entry 10 1 5 ''earn'' 100, entry 11 1 7 ''earn'' 200, entry 12 1 (- 3) ''spend'' 300])
     1 2 1
   = {Inr [entry 11 1 7 ''earn'' 200, entry 10 1 5 ''earn'' 100]}"
proof -
  let ?db = "ledger_of [entry 10 1 5 ''earn'' 100, entry 11 1 7 ''earn'' 200,
                        entry 12 1 (- 3) ''spend'' 300]"
  have d: "distinct (map created_at (filter (\<lambda>t. user_id t = 1) (transactions ?db)))"
    by (simp add: ledger_of_def entry_def)
  have s: "history_spec ?db 1 2 1 = [entry 11 1 7 ''earn'' 200, entry 10 1 5 ''earn'' 100]"
    by (simp add: history_spec_def ledger_of_def entry_def less_eq_prod_def less_prod_def)
  from history_newest_first_paginated [of 2 1 ?db 1] d s show ?thesis by simp
qed

text \<open>
  Two entries created at the same instant: the query may deliver them in either order, so
  two reads of the same ledger may differ, and the order need not follow the identifiers.
\<close>

theorem history_order_of_ties_open:
  "Inr [entry 10 1 5 ''earn'' 100, entry 11 1 7 ''earn'' 100]
     \<in> get_transaction_history (ledger_of [entry 10 1 5 ''earn'' 100, entry 11 1 7 ''earn'' 100])
          1 100 0
   \<and> Inr [entry 11 1 7 ''earn'' 100, entry 10 1 5 ''earn'' 100]
     \<in> get_transaction_history (ledger_of [entry 10 1 5 ''earn'' 100, entry 11 1 7 ''earn'' 100])
          1 100 0
   \<and> [entry 10 1 5 ''earn'' 100, entry 11 1 7 ''earn'' 100]
     \<noteq> [entry 11 1 7 ''earn'' 100, entry 10 1 5 ''earn'' 100]"
  by (simp add: get_transaction_history_def order_by_created_at_desc_def newest_first_def
        ledger_of_def entry_def)

lemma create_transaction_Inr:
  assumes "create_transaction db i n u a r ref c m = Inr (t, db')"
  shows "db' = db\<lparr>transactions := transactions db @ [t]\<rparr>"
    and "numeric_10_2 (dec_value a) = Inr (amount t)"
    and "user_id t = u" and "reason t = r" and "transaction_id t = i"
    and "created_at t = n" and "stripe_ref t = ref"
    and "r \<in> set [''earn'', ''spend'', ''redeem'']" and "coefficient a \<noteq> 0"
    and "u \<in> fst ` set (users db)" and "i \<notin> transaction_id ` set (transactions db)"
  using assms
  by (auto simp: create_transaction_def Let_def split: if_splits sum.splits)

lemma balance_append:
  "calculate_balance_from_ledger (db\<lparr>transactions := transactions db @ [t]\<rparr>) uid
   = calculate_balance_from_ledger db uid + (if user_id t = uid then amount t else 0)"
  by (simp add: sql_balance)

lemma balance_cong:
  "transactions db' = transactions db \<Longrightarrow>
   calculate_balance_from_ledger db' uid = calculate_balance_from_ledger db uid"
  by (simp add: sql_balance)

lemma sum_list_perm_rat:
  "mset xs = mset ys \<Longrightarrow> sum_list (map f xs) = sum_list (map (f :: 'a \<Rightarrow> rat) ys)"
proof -
  assume "mset xs = mset ys"
  then have "mset (map f xs) = mset (map f ys)" by simp
  then have "sum_mset (mset (map f xs)) = sum_mset (mset (map f ys))" by simp
  then show ?thesis by (simp only: sum_mset_sum_list)
qed

lemma full_history_sum:
  assumes l: "int (length (filter (\<lambda>t. user_id t = uid) (transactions db))) \<le> limit_n"
    and h: "Inr h \<in> get_transaction_history db uid limit_n 0"
  shows "sum_list (map amount h) = calculate_balance_from_ledger db uid"
proof -
  let ?rows = "filter (\<lambda>t. user_id t = uid) (transactions db)"
  have "0 \<le> limit_n" using l by linarith
  from history_iff [OF this, of 0] h obtain ordered where
    o: "mset ordered = mset ?rows" "h = take (nat limit_n) (drop (nat 0) ordered)"
    by auto
  have "length ordered = length ?rows" using o(1) by (metis size_mset)
  then have "h = ordered" using o(2) l by simp
  then show ?thesis using sum_list_perm_rat [OF o(1), of amount] by (simp add: sql_balance)
qed

subsection \<open>Balance\<close>

text \<open>
  C1. In every state of the ledger, the balance of an account is the sum of the amounts of
  its entries, and zero when it has none; the amounts of a full page of its history add up to
  the balance. \<^verbatim>\<open>create_transaction\<close> is the only function that adds an entry: when it
  succeeds it appends one entry, holding the amount as the column stores it, and the balance
  of the owner grows by that amount while every other balance stays; the balance is again the
  sum of the entries.
\<close>

theorem balance_is_sum_of_entries:
  "calculate_balance_from_ledger db uid
     = sum_list (map amount (filter (\<lambda>t. user_id t = uid) (transactions db)))
   \<and> get_user_balance db uid = calculate_balance_from_ledger db uid
   \<and> (filter (\<lambda>t. user_id t = uid) (transactions db) = [] \<longrightarrow>
        calculate_balance_from_ledger db uid = 0)
   \<and> (\<forall>h limit_n.
        int (length (filter (\<lambda>t. user_id t = uid) (transactions db))) \<le> limit_n
        \<and> Inr h \<in> get_transaction_history db uid limit_n 0
        \<longrightarrow> sum_list (map amount h) = calculate_balance_from_ledger db uid)
   \<and> (\<forall>new_id now owner amt rsn ref cat meta t db'.
        create_transaction db new_id now owner amt rsn ref cat meta = Inr (t, db')
        \<longrightarrow> transactions db' = transactions db @ [t]
          \<and> user_id t = owner
          \<and> numeric_10_2 (dec_value amt) = Inr (amount t)
          \<and> calculate_balance_from_ledger db' uid
              = calculate_balance_from_ledger db uid + (if owner = uid then amount t else 0)
          \<and> calculate_balance_from_ledger db' uid
              = sum_list (map amount (filter (\<lambda>t. user_id t = uid) (transactions db'))))"
proof (intro conjI allI impI)
  show "calculate_balance_from_ledger db uid
     = sum_list (map amount (filter (\<lambda>t. user_id t = uid) (transactions db)))"
    by (rule sql_balance)
  show "get_user_balance db uid = calculate_balance_from_ledger db uid"
    by (simp add: get_user_balance_def)
next
  assume "filter (\<lambda>t. user_id t = uid) (transactions db) = []"
  then show "calculate_balance_from_ledger db uid = 0" by (simp add: sql_balance)
next
  fix h limit_n
  assume "int (length (filter (\<lambda>t. user_id t = uid) (transactions db))) \<le> limit_n
        \<and> Inr h \<in> get_transaction_history db uid limit_n 0"
  then show "sum_list (map amount h) = calculate_balance_from_ledger db uid"
    using full_history_sum by blast
next
  fix new_id now owner amt rsn ref cat meta t db'
  assume c: "create_transaction db new_id now owner amt rsn ref cat meta = Inr (t, db')"
  note ct = create_transaction_Inr [OF c]
  show "transactions db' = transactions db @ [t]" using ct(1) by simp
  show "user_id t = owner" by (rule ct(3))
  show "numeric_10_2 (dec_value amt) = Inr (amount t)" by (rule ct(2))
  show "calculate_balance_from_ledger db' uid
              = calculate_balance_from_ledger db uid + (if owner = uid then amount t else 0)"
    unfolding ct(1) balance_append ct(3) ..
  show "calculate_balance_from_ledger db' uid
              = sum_list (map amount (filter (\<lambda>t. user_id t = uid) (transactions db')))"
    by (rule sql_balance)
qed

text \<open>
  Entries of 5, 7 and -3 give the balance 9, and no entries the balance 0; an entry of 7.25
  added to a balance of 5 gives 12.25.
\<close>

theorem balance_is_sum_of_entries_witness:
  "calculate_balance_from_ledger
     (ledger_of [entry 10 1 5 ''earn'' 100, entry 11 1 7 ''earn'' 200,
                 entry 12 1 (- 3) ''spend'' 300]) 1 = 9
   \<and> calculate_balance_from_ledger (ledger_of []) 1 = 0
   \<and> (\<exists>t db'. create_transaction (ledger_of [entry 10 1 5 ''earn'' 100]) 11 200 1
                 \<lparr>coefficient = 725, exponent = - 2\<rparr> ''earn'' None None None = Inr (t, db')
        \<and> amount t = 29 / 4
        \<and> calculate_balance_from_ledger db' 1 = 49 / 4)"
proof -
  let ?db = "ledger_of [entry 10 1 5 ''earn'' 100, entry 11 1 7 ''earn'' 200,
                        entry 12 1 (- 3) ''spend'' 300]"
  let ?d1 = "ledger_of [entry 10 1 5 ''earn'' 100]"
  have a: "sum_list (map amount (filter (\<lambda>t. user_id t = 1) (transactions ?db))) = 9"
    by (simp add: ledger_of_def entry_def)
  have b: "filter (\<lambda>t. user_id t = 1) (transactions (ledger_of [])) = []"
    by (simp add: ledger_of_def)
  have n: "numeric_10_2 (dec_value \<lparr>coefficient = 725, exponent = - 2\<rparr>) = Inr (29 / 4)"
    by (simp add: numeric_10_2_def dec_value_def Let_def floor_eq_iff)
  have c: "\<exists>t db'. create_transaction ?d1 11 200 1
                 \<lparr>coefficient = 725, exponent = - 2\<rparr> ''earn'' None None None = Inr (t, db')
             \<and> amount t = 29 / 4"
    by (simp add: create_transaction_def n ledger_of_def entry_def Let_def)
  have d: "calculate_balance_from_ledger ?d1 1 = 5"
    by (simp add: sql_balance ledger_of_def entry_def)
  from c obtain t db' where t: "create_transaction ?d1 11 200 1
                 \<lparr>coefficient = 725, exponent = - 2\<rparr> ''earn'' None None None = Inr (t, db')"
    "amount t = 29 / 4" by blast
  have "calculate_balance_from_ledger db' 1 = 49 / 4"
    using balance_is_sum_of_entries [of ?d1 1] t d by simp
  with t have e: "\<exists>t db'. create_transaction ?d1 11 200 1
                 \<lparr>coefficient = 725, exponent = - 2\<rparr> ''earn'' None None None = Inr (t, db')
        \<and> amount t = 29 / 4 \<and> calculate_balance_from_ledger db' 1 = 49 / 4"
    by blast
  show ?thesis using balance_is_sum_of_entries [of ?db 1] balance_is_sum_of_entries [of "ledger_of []" 1]
      a b e by simp
qed

section \<open>Properties of the webhook handler\<close>

lemma dec_neg_raises: "dec_neg a = Inl e \<Longrightarrow> e = Overflow"
  unfolding dec_neg_def by (rule dec_fix_raises)


lemma handle_payment_succeeded_Inr:
  assumes "handle_payment_succeeded env db event i n = Inr db'"
  shows "db' = db \<or> (\<exists>t. db' = db\<lparr>transactions := transactions db @ [t]\<rparr> \<and> reason t = ''spend'')"
proof -
  have "db' = db \<or> (\<exists>u a ref c m t. create_transaction db i n u a ''spend'' ref c m = Inr (t, db'))"
    using assms
    by (auto simp: handle_payment_succeeded_def split: option.splits if_splits sum.splits)
  then show ?thesis
  proof
    assume "db' = db"
    then show ?thesis by simp
  next
    assume "\<exists>u a ref c m t. create_transaction db i n u a ''spend'' ref c m = Inr (t, db')"
    then obtain u a ref c m t where c: "create_transaction db i n u a ''spend'' ref c m = Inr (t, db')"
      by blast
    have "db' = db\<lparr>transactions := transactions db @ [t]\<rparr> \<and> reason t = ''spend''"
      using create_transaction_Inr(1) [OF c] create_transaction_Inr(4) [OF c] by simp
    then show ?thesis by blast
  qed
qed




lemma webhook_no_secret:
  "WEBHOOK_SECRET env = [] \<Longrightarrow>
   handle_stripe_webhook env (db, processed) v i n = (Inl ValueError, db, processed)"
  by (simp add: handle_stripe_webhook_def)




lemma floor_rat_numeral: "\<lfloor>numeral a / numeral b :: rat\<rfloor> = numeral a div numeral b"
  using floor_divide_of_int_eq [of "numeral a" "numeral b", where ?'a = rat] by simp

text \<open>The definitions an evaluation of a webhook delivery unfolds.\<close>

lemmas eval_webhook =
  handle_stripe_webhook_def log_webhook_event_def add_audit_log_def
  handle_payment_succeeded_def cents_to_decimal_def dec_neg_def dec_fix_def Let_def
  ndigits.simps context_prec_def Etop_def Etiny_def Emax_def Emin_def
  create_transaction_def numeric_10_2_def dec_value_def floor_rat_numeral
  example_env_def payment_event_def unknown_user_event_def ledger_of_def entry_def

subsection \<open>Repeated delivery\<close>




lemma create_transaction_succeeds_iff:
  "(\<exists>t db'. create_transaction db new_id now uid amt rsn ref cat meta = Inr (t, db'))
   \<longleftrightarrow> rsn \<in> set [''earn'', ''spend'', ''redeem''] \<and> coefficient amt \<noteq> 0
       \<and> (\<exists>stored. numeric_10_2 (dec_value amt) = Inr stored)
       \<and> (\<forall>r. ref = Some r \<longrightarrow> length r \<le> 255)
       \<and> (\<forall>c. cat = Some c \<longrightarrow> length c \<le> 100)
       \<and> new_id \<notin> transaction_id ` set (transactions db)
       \<and> uid \<in> fst ` set (users db)"
  by (auto simp: create_transaction_def Let_def split: sum.splits option.splits)

lemma with_amounts_simps [simp]:
  "users (with_amounts f db) = users db"
  "stripe_accounts (with_amounts f db) = stripe_accounts db"
  "transaction_id ` set (transactions (with_amounts f db)) = transaction_id ` set (transactions db)"
  by (auto simp: with_amounts_def image_iff)

lemma create_transaction_with_amounts:
  "(\<exists>t db'. create_transaction (with_amounts f db) new_id now uid amt rsn ref cat meta = Inr (t, db'))
   = (\<exists>t db'. create_transaction db new_id now uid amt rsn ref cat meta = Inr (t, db'))"
  unfolding create_transaction_succeeds_iff by simp

lemma Inr_pair_ex: "(\<exists>db'. (case x of Inl e \<Rightarrow> Inl e | Inr (t, d) \<Rightarrow> Inr d) = Inr db')
   = (\<exists>t db'. x = Inr (t, db'))"
  by (cases x) auto

lemma handle_payment_succeeded_with_amounts:
  "(\<exists>db'. handle_payment_succeeded env (with_amounts f db) event new_id now = Inr db')
   = (\<exists>db'. handle_payment_succeeded env db event new_id now = Inr db')"
  unfolding handle_payment_succeeded_def
  by (simp add: Inr_pair_ex create_transaction_with_amounts
        split: option.splits sum.splits)

section \<open>Properties of the debit path\<close>

text \<open>
  C2, as the code has it. \<^verbatim>\<open>create_transaction\<close> succeeds exactly when the reason is one
  of the three, the amount is not zero and fits its column, the strings fit theirs, the key
  is new and the user exists; the balance is no part of the condition. When it succeeds, the
  balance of the account changes by the stored amount, whatever its sign. Neither it nor the
  handler of \<^verbatim>\<open>payment_intent.succeeded\<close> reads the amounts of the ledger: they succeed on
  a ledger exactly when they succeed on the same ledger with other amounts. When the handler
  appends, it appends a \<^verbatim>\<open>spend\<close> entry and the balance changes by its amount.
\<close>

theorem append_does_not_check_balance:
  "((\<exists>t db'. create_transaction db new_id now uid amt rsn ref cat meta = Inr (t, db'))
     \<longleftrightarrow> rsn \<in> set [''earn'', ''spend'', ''redeem''] \<and> coefficient amt \<noteq> 0
         \<and> (\<exists>stored. numeric_10_2 (dec_value amt) = Inr stored)
         \<and> (\<forall>r. ref = Some r \<longrightarrow> length r \<le> 255)
         \<and> (\<forall>c. cat = Some c \<longrightarrow> length c \<le> 100)
         \<and> new_id \<notin> transaction_id ` set (transactions db)
         \<and> uid \<in> fst ` set (users db))
   \<and> (\<forall>t db'. create_transaction db new_id now uid amt rsn ref cat meta = Inr (t, db') \<longrightarrow>
         numeric_10_2 (dec_value amt) = Inr (amount t)
       \<and> transactions db' = transactions db @ [t]
       \<and> calculate_balance_from_ledger db' uid = calculate_balance_from_ledger db uid + amount t)
   \<and> ((\<exists>t db'. create_transaction (with_amounts f db) new_id now uid amt rsn ref cat meta
                 = Inr (t, db'))
      \<longleftrightarrow> (\<exists>t db'. create_transaction db new_id now uid amt rsn ref cat meta = Inr (t, db')))
   \<and> ((\<exists>db'. handle_payment_succeeded env (with_amounts f db) event new_id now = Inr db')
      \<longleftrightarrow> (\<exists>db'. handle_payment_succeeded env db event new_id now = Inr db'))
   \<and> (\<forall>db'. handle_payment_succeeded env db event new_id now = Inr db' \<longrightarrow>
         db' = db
       \<or> (\<exists>t. db' = db\<lparr>transactions := transactions db @ [t]\<rparr> \<and> reason t = ''spend''
              \<and> calculate_balance_from_ledger db' (user_id t)
                  = calculate_balance_from_ledger db (user_id t) + amount t))"
proof (intro conjI allI impI)
  show "(\<exists>t db'. create_transaction db new_id now uid amt rsn ref cat meta = Inr (t, db'))
     \<longleftrightarrow> rsn \<in> set [''earn'', ''spend'', ''redeem''] \<and> coefficient amt \<noteq> 0
         \<and> (\<exists>stored. numeric_10_2 (dec_value amt) = Inr stored)
         \<and> (\<forall>r. ref = Some r \<longrightarrow> length r \<le> 255)
         \<and> (\<forall>c. cat = Some c \<longrightarrow> length c \<le> 100)
         \<and> new_id \<notin> transaction_id ` set (transactions db)
         \<and> uid \<in> fst ` set (users db)"
    by (rule create_transaction_succeeds_iff)
  show "(\<exists>t db'. create_transaction (with_amounts f db) new_id now uid amt rsn ref cat meta
                 = Inr (t, db'))
      \<longleftrightarrow> (\<exists>t db'. create_transaction db new_id now uid amt rsn ref cat meta = Inr (t, db'))"
    by (rule create_transaction_with_amounts)
  show "(\<exists>db'. handle_payment_succeeded env (with_amounts f db) event new_id now = Inr db')
      \<longleftrightarrow> (\<exists>db'. handle_payment_succeeded env db event new_id now = Inr db')"
    by (rule handle_payment_succeeded_with_amounts)
next
  fix t db'
  assume c: "create_transaction db new_id now uid amt rsn ref cat meta = Inr (t, db')"
  note ct = create_transaction_Inr [OF c]
  show "numeric_10_2 (dec_value amt) = Inr (amount t)" by (rule ct(2))
  show "transactions db' = transactions db @ [t]" using ct(1) by simp
  show "calculate_balance_from_ledger db' uid = calculate_balance_from_ledger db uid + amount t"
    using ct(1,3) by (simp add: sql_balance)
next
  fix db'
  assume "handle_payment_succeeded env db event new_id now = Inr db'"
  from handle_payment_succeeded_Inr [OF this]
  show "db' = db
       \<or> (\<exists>t. db' = db\<lparr>transactions := transactions db @ [t]\<rparr> \<and> reason t = ''spend''
              \<and> calculate_balance_from_ledger db' (user_id t)
                  = calculate_balance_from_ledger db (user_id t) + amount t)"
    by (auto simp: sql_balance)
qed

text \<open>
  A redemption of 7.25 against a balance of 5 is appended and leaves -2.25; the handler
  succeeds on a ledger with all amounts set to zero.
\<close>

theorem append_does_not_check_balance_witness:
  "(\<exists>t db'. create_transaction (ledger_of [entry 10 1 5 ''earn'' 100]) 11 200 1
               \<lparr>coefficient = - 725, exponent = - 2\<rparr> ''redeem'' None None None = Inr (t, db')
      \<and> amount t = - (29 / 4)
      \<and> calculate_balance_from_ledger db' 1 = - (9 / 4))
   \<and> (\<exists>db'. handle_payment_succeeded example_env
               (with_amounts (\<lambda>t. 0) (ledger_of [entry 10 1 5 ''earn'' 100])) payment_event 11 200
             = Inr db')"
proof -
  let ?db = "ledger_of [entry 10 1 5 ''earn'' 100]"
  let ?a = "\<lparr>coefficient = - 725, exponent = - 2\<rparr>"
  have c: "\<exists>t db'. create_transaction ?db 11 200 1 ?a ''redeem'' None None None = Inr (t, db')
             \<and> amount t = - (29 / 4)"
    by (simp add: eval_webhook)
  then obtain t db' where t: "create_transaction ?db 11 200 1 ?a ''redeem'' None None None = Inr (t, db')"
    "amount t = - (29 / 4)" by blast
  have b: "calculate_balance_from_ledger ?db 1 = 5"
    by (simp add: sql_balance ledger_of_def entry_def)
  have h: "\<exists>db'. handle_payment_succeeded example_env ?db payment_event 11 200 = Inr db'"
    by (simp add: eval_webhook)
  note th = append_does_not_check_balance [of ?db 11 200 1 ?a "''redeem''" None None None
      "\<lambda>t. 0" example_env payment_event]
  from th t b have "calculate_balance_from_ledger db' 1 = - (9 / 4)" by simp
  with t have 1: "\<exists>t db'. create_transaction ?db 11 200 1 ?a ''redeem'' None None None = Inr (t, db')
      \<and> amount t = - (29 / 4) \<and> calculate_balance_from_ledger db' 1 = - (9 / 4)"
    by blast
  from th h have 2: "\<exists>db'. handle_payment_succeeded example_env
               (with_amounts (\<lambda>t. 0) ?db) payment_event 11 200 = Inr db'"
    by blast
  from 1 2 show ?thesis by blast
qed

text \<open>
  A negative balance is reachable: a debit of 5 on an empty account is appended, and the
  handler of a payment of 2000 cents, alone or through \<^verbatim>\<open>handle_stripe_webhook\<close>, leaves
  an empty account at -20.
\<close>

theorem balance_negative_reachable:
  "(\<exists>t db'. create_transaction (ledger_of []) 10 100 1
               \<lparr>coefficient = - 500, exponent = - 2\<rparr> ''spend'' None None None = Inr (t, db')
      \<and> calculate_balance_from_ledger db' 1 = - 5)
   \<and> (\<exists>db'. handle_payment_succeeded example_env (ledger_of []) payment_event 10 100 = Inr db'
      \<and> calculate_balance_from_ledger db' 1 = - 20)
   \<and> (\<exists>out db' processed'.
         handle_stripe_webhook example_env (ledger_of [], Map.empty) (Inr payment_event) 10 100
           = (Inr out, db', processed')
       \<and> calculate_balance_from_ledger db' 1 < 0)"
  by (simp add: eval_webhook sql_balance)

end
